theory Spec2Isabelle
  imports Complex_Main
begin

section \<open>Numbers and array reads\<close>

text \<open>
  The grid works on JavaScript numbers. Pixel quantities (sizes, offsets, deltas, times)
  are modelled as exact rationals, indices as integers; rounding of doubles is not
  modelled. An array read outside the array yields \<open>undefined\<close>, which every arithmetic
  operation turns into \<open>NaN\<close> and every comparison into \<open>false\<close>: \<open>jsnum\<close> keeps that
  value apart from the proper numbers.
\<close>

datatype jsnum = Num rat | NaN

instantiation jsnum :: "{zero,plus,minus}"
begin

definition zero_jsnum :: jsnum where
  "zero_jsnum = Num 0"

fun plus_jsnum :: "jsnum \<Rightarrow> jsnum \<Rightarrow> jsnum" where
  "plus_jsnum (Num a) (Num b) = Num (a + b)"
| "plus_jsnum _ _ = NaN"

fun minus_jsnum :: "jsnum \<Rightarrow> jsnum \<Rightarrow> jsnum" where
  "minus_jsnum (Num a) (Num b) = Num (a - b)"
| "minus_jsnum _ _ = NaN"

instance ..

end

text \<open>\<open>a < b\<close> and \<open>a > b\<close> on JavaScript numbers: false as soon as one side is \<open>NaN\<close>.\<close>

fun js_lt :: "jsnum \<Rightarrow> jsnum \<Rightarrow> bool" where
  "js_lt (Num a) (Num b) = (a < b)"
| "js_lt _ _ = False"

fun js_gt :: "jsnum \<Rightarrow> jsnum \<Rightarrow> bool" where
  "js_gt (Num a) (Num b) = (a > b)"
| "js_gt _ _ = False"

text \<open>\<open>v || 0\<close>: \<open>undefined\<close>, \<open>NaN\<close> and \<open>0\<close> are falsy.\<close>

fun or0 :: "jsnum \<Rightarrow> rat" where
  "or0 (Num a) = a"
| "or0 NaN = 0"

text \<open>\<open>xs[i]\<close> on an array of numbers, for any integer index.\<close>

definition js_at :: "rat list \<Rightarrow> int \<Rightarrow> jsnum" where
  "js_at xs i = (if 0 \<le> i \<and> i < int (length xs) then Num (xs ! nat i) else NaN)"

text \<open>\<open>Array.prototype.findIndex\<close>: the first index whose element satisfies the test, or -1.\<close>

fun findIndex :: "('a \<Rightarrow> bool) \<Rightarrow> 'a list \<Rightarrow> int" where
  "findIndex P [] = -1"
| "findIndex P (v # vs) =
     (if P v then 0 else (let k = findIndex P vs in if k = -1 then -1 else k + 1))"

section \<open>Geometry table\<close>

datatype ItemSize = Fixed rat | PerIndex "nat \<Rightarrow> rat"

fun calculateSizes :: "ItemSize \<Rightarrow> nat \<Rightarrow> rat list" where
  "calculateSizes (Fixed itemSize) count = replicate count itemSize"
| "calculateSizes (PerIndex itemSize) count = map itemSize [0..<count]"

text \<open>
  \<open>calculateOffsets\<close>: the array starts as \<open>[]\<close> or \<open>[0]\<close>, and the loop over
  \<open>i = 0 .. length - 2\<close> pushes \<open>offsets[i] + itemSizes[i]\<close>. It is used on the size
  tables (proper numbers) and on the sizes of the sticky items, which may hold
  \<open>undefined\<close>; the definition is the same at both types.
\<close>

definition calculateOffsets :: "'a::{zero,plus} list \<Rightarrow> 'a list" where
  "calculateOffsets itemSizes =
     fold (\<lambda>i offsets. offsets @ [offsets ! i + itemSizes ! i])
       [0..<length itemSizes - 1]
       (if length itemSizes = 0 then [] else [0])"

section \<open>Props, refs and derived tables\<close>

text \<open>
  \<open>offset\<close> is the source's \<open>{x, y}\<close>, \<open>wsize\<close> its \<open>{width, height}\<close>. Only the presence of
  the \<open>onScrollStop\<close> callback matters here, so the prop is a flag.
\<close>

record offset =
  off_x :: rat
  off_y :: rat

record wsize =
  width :: rat
  height :: rat

record renderWindow =
  fromRow :: int
  toRow :: int
  fromCol :: int
  toCol :: int

record 'c Props =
  rows :: "'c list list"
  rowHeight :: ItemSize
  colWidth :: ItemSize
  stickyRows :: "int list"
  stickyCols :: "int list"
  initOffset :: offset
  scrollSpeed :: rat
  renderBatchSize :: int
  onScrollStop :: bool

record TouchInfo =
  ti_t :: rat
  ti_x :: rat
  ti_dx :: rat
  ti_y :: rat
  ti_dy :: rat
  ti_pid :: "nat option"

text \<open>
  The callback handed to \<open>requestAnimationFrame\<close> closes over the offset, the render window
  read at the call, the four resolved bounds and the stuck lists; \<open>rafPidRef\<close> holds the
  pending callback (\<open>None\<close> for the source's 0).
\<close>

record frame =
  f_offset :: offset
  f_renderWindow :: renderWindow
  f_fromRow :: int
  f_toRow :: int
  f_fromCol :: int
  f_toCol :: int
  f_stuckRows :: "int list"
  f_stuckCols :: "int list"

text \<open>
  The refs of the component. \<open>intervals\<close> lists the running momentum intervals with the
  \<open>speedX\<close>, \<open>speedY\<close> variables of their closures; \<open>scrollPidRef\<close> tells whether a
  scroll-stop timer is pending.

  Two more components hold what the closures of the handlers captured. \<open>maxOffset\<close> is a
  constant of a render, computed from \<open>windowSizeRef.current\<close> as that render read it, and
  \<open>scroll\<close> is created by an effect whose dependencies include it: \<open>scroll\<close> clamps with the
  \<open>maxOffset\<close> of the last render. \<open>renderedSize\<close> is the viewport size the last render read.
  The resize observer is created once, by the effect of the first render, and keeps that
  render's \<open>reflow\<close>; the refs of the elements are made by \<open>createRef()\<close> in every render,
  and those of the first render are emptied when the component renders again.
  \<open>firstRefs\<close> tells whether the refs of the first render still hold their elements.
\<close>

record state =
  renderWindowRef :: renderWindow
  rowsTranslateRef :: offset
  offsetRef :: offset
  rafPidRef :: "frame option"
  scrollPidRef :: bool
  touchInfoRef :: TouchInfo
  windowSizeRef :: wsize
  renderFlag :: bool
  stuckRowsRef :: "int list"
  stuckColsRef :: "int list"
  intervals :: "(nat \<times> rat \<times> rat) list"
  nextPid :: nat
  renderedSize :: wsize
  firstRefs :: bool

definition initState :: "'c Props \<Rightarrow> state" where
  "initState p =
     \<lparr> renderWindowRef = \<lparr> fromRow = 0, toRow = 0, fromCol = 0, toCol = 0 \<rparr>,
       rowsTranslateRef = \<lparr> off_x = 0, off_y = 0 \<rparr>,
       offsetRef = initOffset p,
       rafPidRef = None,
       scrollPidRef = False,
       touchInfoRef = \<lparr> ti_t = 0, ti_x = 0, ti_dx = 0, ti_y = 0, ti_dy = 0, ti_pid = None \<rparr>,
       windowSizeRef = \<lparr> width = 0, height = 0 \<rparr>,
       renderFlag = False,
       stuckRowsRef = [],
       stuckColsRef = [],
       intervals = [],
       nextPid = 1,
       renderedSize = \<lparr> width = 0, height = 0 \<rparr>,
       firstRefs = True \<rparr>"

text \<open>
  The tables of one render. They depend on the props only, and the handlers below read
  them from the props they are given: within one run the props are fixed, so that every
  closure holds the same tables. \<open>maxOffset\<close> is the one constant of a render that depends
  on the viewport: it is taken from \<open>renderedSize\<close>, not from the current
  \<open>windowSizeRef\<close>.

  A change of props is a render pass with the new props, followed by a run with them. The
  wheel and touch handlers of that run are those of the new props when the effect that
  registers them runs again, which it does when the total size, \<open>maxOffset\<close> or
  \<open>scrollSpeed\<close> differ from those of the render before.
\<close>

definition numRows :: "'c Props \<Rightarrow> nat" where
  "numRows p = length (rows p)"

definition numCols :: "'c Props \<Rightarrow> nat" where
  "numCols p = fold (\<lambda>row mx. max mx (length row)) (rows p) 0"

definition rowHeights :: "'c Props \<Rightarrow> rat list" where
  "rowHeights p = calculateSizes (rowHeight p) (numRows p)"

definition rowOffsets :: "'c Props \<Rightarrow> rat list" where
  "rowOffsets p = calculateOffsets (rowHeights p)"

definition colWidths :: "'c Props \<Rightarrow> rat list" where
  "colWidths p = calculateSizes (colWidth p) (numCols p)"

definition colOffsets :: "'c Props \<Rightarrow> rat list" where
  "colOffsets p = calculateOffsets (colWidths p)"

definition totalSize :: "'c Props \<Rightarrow> wsize" where
  "totalSize p =
     \<lparr> width = (if numCols p = 0 then 0
                else colOffsets p ! (numCols p - 1) + colWidths p ! (numCols p - 1)),
       height = (if numRows p = 0 then 0
                 else rowOffsets p ! (numRows p - 1) + rowHeights p ! (numRows p - 1)) \<rparr>"

definition maxOffset :: "'c Props \<Rightarrow> state \<Rightarrow> offset" where
  "maxOffset p s =
     \<lparr> off_x = width (totalSize p) - width (renderedSize s),
       off_y = height (totalSize p) - height (renderedSize s) \<rparr>"

definition sortedStickyRows :: "'c Props \<Rightarrow> int list" where
  "sortedStickyRows p = sort (stickyRows p)"

definition stickyRowOffsets :: "'c Props \<Rightarrow> jsnum list" where
  "stickyRowOffsets p = calculateOffsets (map (\<lambda>r. js_at (rowHeights p) r) (sortedStickyRows p))"

definition sortedStickyCols :: "'c Props \<Rightarrow> int list" where
  "sortedStickyCols p = sort (stickyCols p)"

definition stickyColOffsets :: "'c Props \<Rightarrow> jsnum list" where
  "stickyColOffsets p = calculateOffsets (map (\<lambda>c. js_at (colWidths p) c) (sortedStickyCols p))"

section \<open>Window resolution: \<open>setOffset\<close> and its frame callback\<close>

text \<open>\<open>while (offsets[i] > pos) i -= 1\<close>; the read at -1 is \<open>undefined\<close> and ends the loop.\<close>

function walkBack :: "rat list \<Rightarrow> rat \<Rightarrow> int \<Rightarrow> int" where
  "walkBack offsets pos i =
     (if js_gt (js_at offsets i) (Num pos) then walkBack offsets pos (i - 1) else i)"
  by pat_completeness auto
termination
  by (relation "measure (\<lambda>(offsets, pos, i). nat (i + 1))")
     (auto simp: js_at_def split: if_splits)

definition visibleFrom :: "rat list \<Rightarrow> rat \<Rightarrow> int" where
  "visibleFrom offsets pos = walkBack offsets pos (findIndex (\<lambda>v. v \<ge> pos) offsets)"

definition visibleTo :: "rat list \<Rightarrow> nat \<Rightarrow> rat \<Rightarrow> rat \<Rightarrow> int" where
  "visibleTo offsets count pos extent =
     (let k = (if extent = 0 then int count else findIndex (\<lambda>v. v \<ge> pos + extent) offsets)
      in if k = -1 then int count else k)"

text \<open>\<open>array.filter((v, i) => ...)\<close>: the test sees the element and its index.\<close>

definition filter_idx :: "('a \<Rightarrow> nat \<Rightarrow> bool) \<Rightarrow> 'a list \<Rightarrow> 'a list" where
  "filter_idx P xs = map fst (filter (\<lambda>(v, i). P v i) (zip xs [0..<length xs]))"

definition same :: "int list \<Rightarrow> int list \<Rightarrow> bool" where
  "same nums1 nums2 =
     (if length nums1 = length nums2
      then list_all (\<lambda>i. nums1 ! i = nums2 ! i) [0..<length nums1]
      else False)"

text \<open>
  \<open>setOffset\<close> returns whether the offset was accepted. The successive assignments to
  \<open>fromRow\<close>, \<open>toRow\<close>, \<open>fromCol\<close>, \<open>toCol\<close> are numbered in the order of the source.
\<close>

definition setOffset ::
  "'c Props \<Rightarrow> bool \<Rightarrow> bool \<Rightarrow> bool \<Rightarrow> offset \<Rightarrow> bool \<Rightarrow> state \<Rightarrow> bool \<times> state" where
  "setOffset p cellsElmnt stickyRowsElmnt stickyColsElmnt offset force s =
     (if cellsElmnt \<and> stickyRowsElmnt \<and> stickyColsElmnt \<and>
         (force \<or> off_x (offsetRef s) \<noteq> off_x offset \<or> off_y (offsetRef s) \<noteq> off_y offset)
      then
        let w = width (windowSizeRef s);
            h = height (windowSizeRef s);
            renderWindow = renderWindowRef s;
            fromRow0 = fromRow renderWindow;
            toRow0 = toRow renderWindow;
            fromCol0 = fromCol renderWindow;
            toCol0 = toCol renderWindow;
            visibleFromRow = visibleFrom (rowOffsets p) (off_y offset);
            visibleFromCol = visibleFrom (colOffsets p) (off_x offset);
            visibleToRow = visibleTo (rowOffsets p) (numRows p) (off_y offset) h;
            visibleToCol = visibleTo (colOffsets p) (numCols p) (off_x offset) w;
            (fromRow1, toRow1) =
              (if visibleFromRow < fromRow0
               then (visibleFromRow - renderBatchSize p, visibleToRow) else (fromRow0, toRow0));
            (fromCol1, toCol1) =
              (if visibleFromCol < fromCol0
               then (visibleFromCol - renderBatchSize p, visibleToCol) else (fromCol0, toCol0));
            (fromRow2, toRow2) =
              (if visibleToRow > toRow1
               then (visibleFromRow, visibleToRow + renderBatchSize p) else (fromRow1, toRow1));
            (fromCol2, toCol2) =
              (if visibleToCol > toCol1
               then (visibleFromCol, visibleToCol + renderBatchSize p) else (fromCol1, toCol1));
            fromRow3 = max fromRow2 0;
            toRow3 = min toRow2 (int (length (rowOffsets p)));
            fromCol3 = max fromCol2 0;
            toCol3 = min toCol2 (int (length (colOffsets p)));
            stuckRows = filter_idx
              (\<lambda>r i. js_lt (js_at (rowOffsets p) r - stickyRowOffsets p ! i) (Num (off_y offset)))
              (sortedStickyRows p);
            stuckCols = filter_idx
              (\<lambda>c i. js_lt (js_at (colOffsets p) c - stickyColOffsets p ! i) (Num (off_x offset)))
              (sortedStickyCols p)
        in (True,
            s\<lparr> offsetRef := offset,
               rafPidRef := Some
                 \<lparr> f_offset = offset, f_renderWindow = renderWindow,
                   f_fromRow = fromRow3, f_toRow = toRow3,
                   f_fromCol = fromCol3, f_toCol = toCol3,
                   f_stuckRows = stuckRows, f_stuckCols = stuckCols \<rparr> \<rparr>)
      else (False, s))"

text \<open>
  A render pass, as far as the closures go: the new \<open>maxOffset\<close> is computed from the
  current viewport size (and the effect hands it to a new \<open>scroll\<close>), and the refs of the
  first render lose their elements.
\<close>

definition rerender :: "state \<Rightarrow> state" where
  "rerender s = s\<lparr> renderedSize := windowSizeRef s, firstRefs := False \<rparr>"

text \<open>
  The animation-frame callback, when one is pending: it clears \<open>rafPidRef\<close>, stores the
  translate offsets and, when the window or a stuck list changed, publishes them and
  toggles the render flag, upon which the component renders again. (The style strings
  written to the three elements are left out.)
\<close>

definition runFrame :: "'c Props \<Rightarrow> state \<Rightarrow> state" where
  "runFrame p s =
     (case rafPidRef s of
        None \<Rightarrow> s
      | Some f \<Rightarrow>
          let translateY = - off_y (f_offset f) + or0 (js_at (rowOffsets p) (f_fromRow f));
              translateX = - off_x (f_offset f) + or0 (js_at (colOffsets p) (f_fromCol f));
              s1 = s\<lparr> rafPidRef := None,
                      rowsTranslateRef := \<lparr> off_x = translateX, off_y = translateY \<rparr> \<rparr>
          in if f_fromRow f \<noteq> fromRow (f_renderWindow f) \<or>
                f_toRow f \<noteq> toRow (f_renderWindow f) \<or>
                f_fromCol f \<noteq> fromCol (f_renderWindow f) \<or>
                f_toCol f \<noteq> toCol (f_renderWindow f) \<or>
                \<not> same (f_stuckRows f) (stuckRowsRef s1) \<or>
                \<not> same (f_stuckCols f) (stuckColsRef s1)
             then rerender
                    (s1\<lparr> renderWindowRef :=
                           \<lparr> fromRow = f_fromRow f, toRow = f_toRow f,
                             fromCol = f_fromCol f, toCol = f_toCol f \<rparr>,
                         stuckRowsRef := f_stuckRows f,
                         stuckColsRef := f_stuckCols f,
                         renderFlag := \<not> renderFlag s1 \<rparr>)
             else s1)"

text \<open>\<open>reflow\<close>, the resize observer's callback, with the measured size of the root element.\<close>

definition reflow ::
  "'c Props \<Rightarrow> bool \<Rightarrow> bool \<Rightarrow> bool \<Rightarrow> bool \<Rightarrow> rat \<Rightarrow> rat \<Rightarrow> state \<Rightarrow> state" where
  "reflow p rootElmnt cellsElmnt stickyRowsElmnt stickyColsElmnt w h s =
     (if rootElmnt \<and> cellsElmnt
      then let s1 = s\<lparr> windowSizeRef := \<lparr> width = w, height = h \<rparr> \<rparr>
           in snd (setOffset p cellsElmnt stickyRowsElmnt stickyColsElmnt (offsetRef s1) True s1)
      else s)"

section \<open>Offset controller: \<open>scroll\<close>\<close>

definition scroll ::
  "'c Props \<Rightarrow> bool \<Rightarrow> bool \<Rightarrow> bool \<Rightarrow> rat \<Rightarrow> rat \<Rightarrow> state \<Rightarrow> state" where
  "scroll p cellsElmnt stickyRowsElmnt stickyColsElmnt deltaX deltaY s =
     (if width (totalSize p) \<le> width (windowSizeRef s) \<and>
         height (totalSize p) \<le> height (windowSizeRef s)
      then s
      else
        let effectiveDeltaX = (if width (windowSizeRef s) = 0 then 0 else deltaX);
            effectiveDeltaY = (if height (windowSizeRef s) = 0 then 0 else deltaY);
            offset =
              \<lparr> off_x = min (off_x (maxOffset p s))
                          (max 0 (off_x (offsetRef s) + effectiveDeltaX * scrollSpeed p)),
                off_y = min (off_y (maxOffset p s))
                          (max 0 (off_y (offsetRef s) + effectiveDeltaY * scrollSpeed p)) \<rparr>;
            (accepted, s1) = setOffset p cellsElmnt stickyRowsElmnt stickyColsElmnt offset False s
        in if accepted
           then (if onScrollStop p then s1\<lparr> scrollPidRef := True \<rparr> else s1)
           else s1)"

section \<open>Input adapters\<close>

definition clearInterval :: "nat \<Rightarrow> (nat \<times> rat \<times> rat) list \<Rightarrow> (nat \<times> rat \<times> rat) list" where
  "clearInterval pid ivs = filter (\<lambda>e. fst e \<noteq> pid) ivs"

definition onWheel ::
  "'c Props \<Rightarrow> bool \<Rightarrow> bool \<Rightarrow> bool \<Rightarrow> rat \<Rightarrow> rat \<Rightarrow> state \<Rightarrow> state" where
  "onWheel p cellsElmnt stickyRowsElmnt stickyColsElmnt deltaX deltaY s =
     scroll p cellsElmnt stickyRowsElmnt stickyColsElmnt deltaX deltaY s"

definition onTouchStart :: "rat \<Rightarrow> rat \<Rightarrow> rat \<Rightarrow> state \<Rightarrow> state" where
  "onTouchStart timeStamp clientX clientY s =
     (let s1 = (case ti_pid (touchInfoRef s) of
                  Some pid \<Rightarrow> s\<lparr> intervals := clearInterval pid (intervals s),
                                 touchInfoRef := (touchInfoRef s)\<lparr> ti_pid := None \<rparr> \<rparr>
                | None \<Rightarrow> s)
      in s1\<lparr> touchInfoRef :=
               \<lparr> ti_t = timeStamp, ti_x = clientX, ti_dx = 0,
                 ti_y = clientY, ti_dy = 0, ti_pid = None \<rparr> \<rparr>)"

definition onTouchMove ::
  "'c Props \<Rightarrow> bool \<Rightarrow> bool \<Rightarrow> bool \<Rightarrow> rat \<Rightarrow> rat \<Rightarrow> rat \<Rightarrow> state \<Rightarrow> state" where
  "onTouchMove p cellsElmnt stickyRowsElmnt stickyColsElmnt timeStamp clientX clientY s =
     (let dx = ti_x (touchInfoRef s) - clientX;
          dy = ti_y (touchInfoRef s) - clientY;
          s1 = scroll p cellsElmnt stickyRowsElmnt stickyColsElmnt dx dy s
      in s1\<lparr> touchInfoRef :=
               \<lparr> ti_t = timeStamp, ti_x = clientX, ti_dx = dx,
                 ti_y = clientY, ti_dy = dy, ti_pid = None \<rparr> \<rparr>)"

text \<open>
  \<open>onTouchEnd\<close> divides by the time elapsed since the last touch point. When that is zero
  JavaScript yields an infinite or \<open>NaN\<close> speed and the source goes on with it: the
  interval then hands infinite or \<open>NaN\<close> deltas to \<open>scroll\<close>, a \<open>NaN\<close> delta makes the
  offset \<open>NaN\<close>, and the stop test is never true. The rational model does not hold these
  values: \<open>onTouchEnd\<close> returns \<open>None\<close> there, and nothing below speaks of a run that goes
  through such a release.
\<close>

definition onTouchEnd :: "rat \<Rightarrow> state \<Rightarrow> state option" where
  "onTouchEnd timeStamp s =
     (let touchInfo = touchInfoRef s
      in if timeStamp - ti_t touchInfo = 0 then None
         else
           let speedX = ti_dx touchInfo / (timeStamp - ti_t touchInfo);
               speedY = ti_dy touchInfo / (timeStamp - ti_t touchInfo);
               pid = nextPid s
           in Some (s\<lparr> intervals := (pid, speedX, speedY) # intervals s,
                        nextPid := Suc pid,
                        touchInfoRef := touchInfo\<lparr> ti_pid := Some pid \<rparr> \<rparr>))"

text \<open>
  One firing of the interval \<open>pid\<close> started by \<open>onTouchEnd\<close> (nothing if it was cleared).
  \<open>tickDelta\<close> is the delta \<open>(speedX * 16, speedY * 16)\<close> the firing hands to \<open>scroll\<close>.
\<close>

definition tickDelta :: "rat \<times> rat \<Rightarrow> rat \<times> rat" where
  "tickDelta speed = (fst speed * 16, snd speed * 16)"

definition tick ::
  "'c Props \<Rightarrow> bool \<Rightarrow> bool \<Rightarrow> bool \<Rightarrow> nat \<Rightarrow> state \<Rightarrow> state" where
  "tick p cellsElmnt stickyRowsElmnt stickyColsElmnt pid s =
     (case map_of (intervals s) pid of
        None \<Rightarrow> s
      | Some (speedX, speedY) \<Rightarrow>
          let (dx, dy) = tickDelta (speedX, speedY);
              s1 = scroll p cellsElmnt stickyRowsElmnt stickyColsElmnt dx dy s;
              speedX1 = speedX * (95 / 100);
              speedY1 = speedY * (95 / 100)
          in if \<bar>speedX1\<bar> + \<bar>speedY1\<bar> < 1 / 100
             then s1\<lparr> intervals := clearInterval pid (intervals s1),
                       touchInfoRef := (touchInfoRef s1)\<lparr> ti_pid := None \<rparr> \<rparr>
             else s1\<lparr> intervals :=
                         map (\<lambda>e. if fst e = pid then (pid, speedX1, speedY1) else e)
                           (intervals s1) \<rparr>)"

section \<open>Events\<close>

text \<open>
  The component is driven by events: the resize observer (with the measured, non-negative
  size of the root element), wheel and touch events, the firing of a momentum interval, of
  the pending animation frame and of the scroll-stop timer, and a render pass started from
  outside (the parent renders again). The wheel and touch handlers are registered by an
  effect that runs after the commit, with the elements of that commit: their elements are
  present. The resize observer calls the \<open>reflow\<close> of the first render, whose four refs hold
  their elements only until the component renders again.
\<close>

datatype event =
    Resize rat rat
  | Wheel rat rat
  | TouchStart rat rat rat
  | TouchMove rat rat rat
  | TouchEnd rat
  | IntervalTick nat
  | AnimationFrame
  | ScrollStopTimer
  | Render

fun handle :: "'c Props \<Rightarrow> event \<Rightarrow> state \<Rightarrow> state option" where
  "handle p (Resize w h) s =
     (if 0 \<le> w \<and> 0 \<le> h
      then Some (reflow p (firstRefs s) (firstRefs s) (firstRefs s) (firstRefs s) w h s)
      else None)"
| "handle p (Wheel deltaX deltaY) s = Some (onWheel p True True True deltaX deltaY s)"
| "handle p (TouchStart timeStamp clientX clientY) s =
     Some (onTouchStart timeStamp clientX clientY s)"
| "handle p (TouchMove timeStamp clientX clientY) s =
     Some (onTouchMove p True True True timeStamp clientX clientY s)"
| "handle p (TouchEnd timeStamp) s = onTouchEnd timeStamp s"
| "handle p (IntervalTick pid) s = Some (tick p True True True pid s)"
| "handle p AnimationFrame s = Some (runFrame p s)"
| "handle p ScrollStopTimer s = Some (s\<lparr> scrollPidRef := False \<rparr>)"
| "handle p Render s = Some (rerender s)"

fun run :: "'c Props \<Rightarrow> event list \<Rightarrow> state \<Rightarrow> state option" where
  "run p [] s = Some s"
| "run p (e # es) s = (case handle p e s of None \<Rightarrow> None | Some s1 \<Rightarrow> run p es s1)"

inductive reachable :: "'c Props \<Rightarrow> state \<Rightarrow> bool" for p :: "'c Props" where
  init: "reachable p (initState p)"
| step: "reachable p s \<Longrightarrow> handle p e s = Some s1 \<Longrightarrow> reachable p s1"

section \<open>Cell materialization\<close>

text \<open>
  \<open>makeRenderedCell(r, c)\<close> reads \<open>rows[r][c]\<close>: outside the rows, \<open>rows[r]\<close> is
  \<open>undefined\<close> and the read throws a \<open>TypeError\<close>; inside a short row the cell is
  \<open>undefined\<close> (\<open>None\<close>). \<open>render\<close> lists the cells that one render pass hands to the
  \<open>children\<close> function, in the order in which the source produces them (scrollable cells,
  stuck rows, stuck columns, stuck corners).
\<close>

datatype error = TypeError

definition makeRenderedCell :: "'c Props \<Rightarrow> int \<Rightarrow> int \<Rightarrow> error + (int \<times> int \<times> 'c option)" where
  "makeRenderedCell p r c =
     (if 0 \<le> r \<and> r < int (length (rows p))
      then (let row = rows p ! nat r
            in Inr (r, c, if 0 \<le> c \<and> c < int (length row) then Some (row ! nat c) else None))
      else Inl TypeError)"

fun collect :: "('a \<Rightarrow> error + 'b) \<Rightarrow> 'a list \<Rightarrow> error + 'b list" where
  "collect f [] = Inr []"
| "collect f (v # vs) =
     (case f v of
        Inl e \<Rightarrow> Inl e
      | Inr b \<Rightarrow> (case collect f vs of Inl e \<Rightarrow> Inl e | Inr bs \<Rightarrow> Inr (b # bs)))"

definition render :: "'c Props \<Rightarrow> state \<Rightarrow> error + (int \<times> int \<times> 'c option) list" where
  "render p s =
     (let w = renderWindowRef s;
          stuckRows = stuckRowsRef s;
          stuckCols = stuckColsRef s;
          rs = filter (\<lambda>r. r \<notin> set stuckRows) [fromRow w .. toRow w - 1];
          cs = filter (\<lambda>c. c \<notin> set stuckCols) [fromCol w .. toCol w - 1]
      in collect (\<lambda>(r, c). makeRenderedCell p r c)
           (List.product rs cs
            @ List.product stuckRows cs
            @ map (\<lambda>(c, r). (r, c)) (List.product stuckCols rs)
            @ List.product stuckRows stuckCols))"

section \<open>The specification's reading of the visible range and of the hysteresis rule\<close>

text \<open>
  The visible rows, computed directly from the offset and the viewport: the rows whose
  extent \<open>[rowOffsets[i], rowOffsets[i] + rowHeights[i])\<close> meets the viewport's
  \<open>[y, y + height)\<close>. Columns alike.
\<close>

definition visibleRows :: "'c Props \<Rightarrow> offset \<Rightarrow> wsize \<Rightarrow> nat list" where
  "visibleRows p offset ws =
     filter (\<lambda>i. rowOffsets p ! i < off_y offset + height ws
                \<and> off_y offset < rowOffsets p ! i + rowHeights p ! i)
       [0..<numRows p]"

definition visibleCols :: "'c Props \<Rightarrow> offset \<Rightarrow> wsize \<Rightarrow> nat list" where
  "visibleCols p offset ws =
     filter (\<lambda>i. colOffsets p ! i < off_x offset + width ws
                \<and> off_x offset < colOffsets p ! i + colWidths p ! i)
       [0..<numCols p]"

text \<open>
  The hysteresis rule on one axis, by cases: the backward rule, else the forward rule,
  else the current bounds; then the clamp to \<open>[0, count]\<close>.
\<close>

definition hysteresis :: "int \<Rightarrow> int \<Rightarrow> int \<Rightarrow> int \<Rightarrow> int \<times> int \<Rightarrow> int \<times> int" where
  "hysteresis batch count vFrom vTo current =
     (if vFrom < fst current then (max (vFrom - batch) 0, min vTo count)
      else if vTo > snd current then (max vFrom 0, min (vTo + batch) count)
      else (max (fst current) 0, min (snd current) count))"

section \<open>Example grids\<close>

text \<open>
  A grid of \<open>nr\<close> rows and \<open>nc\<close> columns with the default sizes (rows of 40, columns
  of 80), speed and batch size, no sticky items and no callback.
\<close>

definition grid :: "nat \<Rightarrow> nat \<Rightarrow> unit Props" where
  "grid nr nc =
     \<lparr> rows = replicate nr (replicate nc ()),
       rowHeight = Fixed 40, colWidth = Fixed 80,
       stickyRows = [], stickyCols = [],
       initOffset = \<lparr> off_x = 0, off_y = 0 \<rparr>,
       scrollSpeed = 1, renderBatchSize = 5, onScrollStop = False \<rparr>"

text \<open>Ten rows of one cell: 80 wide and 400 high in all.\<close>

definition tenRows :: "unit Props" where
  "tenRows = grid 10 1"

text \<open>
  Twelve rows of height 100 with a batch size of 1; \<open>scrolledDown\<close> is their state in a
  viewport of 80 by 200 after scrolling down by 600, the frames run. \<open>twelveLowRows\<close> are the
  same rows with the \<open>rowHeight\<close> prop changed to 20.
\<close>

definition twelveRows :: "unit Props" where
  "twelveRows = (grid 12 1)\<lparr> rowHeight := Fixed 100, renderBatchSize := 1 \<rparr>"

definition scrolledDown :: state where
  "scrolledDown = the (run twelveRows
     [Resize 80 200, AnimationFrame, Wheel 0 600, AnimationFrame] (initState twelveRows))"


text \<open>
  \<open>narrow\<close>: ten rows in a root element measured 0 wide and 100 high.
  \<open>staleOffset\<close>: five rows mounted with the offset \<open>{x: 0, y: 1200}\<close> saved from an earlier,
  longer grid, in a viewport of 200 by 500 that holds the whole grid.
  \<open>noRows\<close>: \<open>rows = []\<close>; \<open>noRowsStale\<close>: the same with a saved offset \<open>{x: 5, y: 0}\<close>.
\<close>

definition narrow :: state where
  "narrow = the (run tenRows [Resize 0 100, AnimationFrame] (initState tenRows))"

text \<open>
  \<open>measured\<close> and \<open>measuredWide\<close>: the ten rows right after the resize observer measured
  the root element, 80 by 100 and 200 by 100, the frame still pending: no render has read
  the measured size, and \<open>scroll\<close> holds the \<open>maxOffset\<close> of the first render, the total
  size.
\<close>

definition measured :: state where
  "measured = the (run tenRows [Resize 80 100] (initState tenRows))"

definition measuredWide :: state where
  "measuredWide = the (run tenRows [Resize 200 100] (initState tenRows))"



definition noRows :: "unit Props" where
  "noRows = grid 0 0"

definition noRowsStale :: "unit Props" where
  "noRowsStale = (grid 0 0)\<lparr> initOffset := \<lparr> off_x = 5, off_y = 0 \<rparr> \<rparr>"

text \<open>
  \<open>shifted\<close>: ten rows (80 wide in all) in a viewport of 200 by 100, after one wheel event
  that scrolls down by 40 and the frame that follows.
\<close>

definition shifted :: state where
  "shifted = the (run tenRows
     [Resize 200 100, AnimationFrame, Wheel 0 40, AnimationFrame] (initState tenRows))"

text \<open>
  \<open>stickyGrid\<close>: the ten rows with row 1 sticky; \<open>atRowOne\<close>: that grid in a viewport of 80
  by 100, scrolled down by 40, so that row 1 is exactly at the top of the viewport.
\<close>

definition stickyGrid :: "unit Props" where
  "stickyGrid = tenRows\<lparr> stickyRows := [1] \<rparr>"

definition atRowOne :: state where
  "atRowOne = the (run stickyGrid
     [Resize 80 100, AnimationFrame, Wheel 0 40, AnimationFrame] (initState stickyGrid))"

section \<open>The invariant of the grid without rows\<close>

text \<open>
  What every reachable state of a grid with \<open>rows = []\<close> satisfies: the offset is the one
  the component was mounted with, the window and the stuck lists are empty, the measured
  viewport is not negative, and so is what a pending frame is about to publish.
\<close>

definition emptyGridInv :: "'c Props \<Rightarrow> state \<Rightarrow> bool" where
  "emptyGridInv p s \<longleftrightarrow>
     offsetRef s = initOffset p
     \<and> renderWindowRef s = \<lparr> fromRow = 0, toRow = 0, fromCol = 0, toCol = 0 \<rparr>
     \<and> stuckRowsRef s = [] \<and> stuckColsRef s = []
     \<and> 0 \<le> width (windowSizeRef s) \<and> 0 \<le> height (windowSizeRef s)
     \<and> (case rafPidRef s of
          None \<Rightarrow> True
        | Some f \<Rightarrow> f_fromRow f = 0 \<and> f_toRow f = 0 \<and> f_fromCol f = 0 \<and> f_toCol f = 0
                    \<and> f_stuckRows f = [] \<and> f_stuckCols f = [])"

section \<open>Properties of the geometry table\<close>

lemma calculateOffsets_loop:
  "k < length itemSizes \<Longrightarrow>
     fold (\<lambda>i offsets. offsets @ [offsets ! i + itemSizes ! i]) [0..<k] [0::'a::monoid_add]
       = map (\<lambda>i. sum_list (take i itemSizes)) [0..<Suc k]"
proof (induction k)
  case 0
  show ?case by simp
next
  case (Suc k)
  then have IH: "fold (\<lambda>i offsets. offsets @ [offsets ! i + itemSizes ! i]) [0..<k] [0::'a]
       = map (\<lambda>i. sum_list (take i itemSizes)) [0..<Suc k]"
    by simp
  have len: "length (map (\<lambda>i. sum_list (take i itemSizes)) [0..<Suc k]) = Suc k"
    by simp
  have nth: "map (\<lambda>i. sum_list (take i itemSizes)) [0..<Suc k] ! k = sum_list (take k itemSizes)"
    by (metis (lifting) add_0 diff_zero lessI nth_map_upt)
  have step: "sum_list (take k itemSizes) + itemSizes ! k = sum_list (take (Suc k) itemSizes)"
    using Suc.prems by (simp add: take_Suc_conv_app_nth)
  let ?f = "\<lambda>i offsets. offsets @ [offsets ! i + itemSizes ! i]"
  let ?M = "map (\<lambda>i. sum_list (take i itemSizes)) [0..<Suc k]"
  have "fold ?f [0..<Suc k] [0::'a] = fold ?f [0..<k] [0] @ [fold ?f [0..<k] [0] ! k + itemSizes ! k]"
    by simp
  also have "\<dots> = ?M @ [?M ! k + itemSizes ! k]"
    by (simp only: IH)
  also have "\<dots> = ?M @ [sum_list (take (Suc k) itemSizes)]"
    by (simp only: nth step)
  finally have *: "fold ?f [0..<Suc k] [0::'a] = ?M @ [sum_list (take (Suc k) itemSizes)]" .
  have "map (\<lambda>i. sum_list (take i itemSizes)) [0..<Suc (Suc k)]
      = ?M @ [sum_list (take (Suc k) itemSizes)]"
    by (subst upt_Suc_append [of 0 "Suc k"]) simp_all
  with * show ?case by (simp only:)
qed

lemma calculateOffsets_eq:
  "calculateOffsets (itemSizes :: 'a::monoid_add list)
     = map (\<lambda>i. sum_list (take i itemSizes)) [0..<length itemSizes]"
proof (cases "itemSizes = []")
  case True
  then show ?thesis by (simp add: calculateOffsets_def)
next
  case False
  then have "length itemSizes - 1 < length itemSizes" by simp
  from calculateOffsets_loop [OF this] False show ?thesis
    by (simp add: calculateOffsets_def)
qed

lemma length_calculateOffsets [simp]:
  "length (calculateOffsets (itemSizes :: 'a::monoid_add list)) = length itemSizes"
  by (simp add: calculateOffsets_eq)

lemma nth_calculateOffsets:
  "i < length itemSizes \<Longrightarrow>
     calculateOffsets (itemSizes :: 'a::monoid_add list) ! i = sum_list (take i itemSizes)"
  by (simp add: calculateOffsets_eq)

text \<open>
  C9. For every list of sizes, \<open>calculateOffsets\<close> returns a list of the same length as
  its input (empty for the empty list); when the list is not empty its first element is 0,
  and the element at every index \<open>i\<close> is the sum of the sizes at the indices \<open>0 .. i - 1\<close>.
\<close>

theorem calculateOffsets_prefix_sums:
  fixes itemSizes :: "rat list"
  shows "length (calculateOffsets itemSizes) = length itemSizes
       \<and> calculateOffsets ([] :: rat list) = []
       \<and> (itemSizes \<noteq> [] \<longrightarrow> calculateOffsets itemSizes ! 0 = 0)
       \<and> (\<forall>i < length itemSizes. calculateOffsets itemSizes ! i = sum_list (take i itemSizes))"
proof -
  have "itemSizes \<noteq> [] \<longrightarrow> calculateOffsets itemSizes ! 0 = 0"
    by (simp add: nth_calculateOffsets)
  moreover have "calculateOffsets ([] :: rat list) = []"
    by (simp add: calculateOffsets_def)
  ultimately show ?thesis
    by (simp add: nth_calculateOffsets)
qed

theorem calculateOffsets_prefix_sums_witness:
  "length (calculateOffsets [40, 25, 70 :: rat]) = 3
   \<and> calculateOffsets [40, 25, 70 :: rat] ! 0 = 0
   \<and> calculateOffsets [40, 25, 70 :: rat] ! 2 = sum_list (take 2 [40, 25, 70])
   \<and> calculateOffsets [40, 25, 70 :: rat] = [0, 40, 65]"
proof -
  have "calculateOffsets [40, 25, 70 :: rat] = [0, 40, 65]"
    by (simp add: calculateOffsets_def numeral_3_eq_3 upt_rec)
  then show ?thesis
    using calculateOffsets_prefix_sums [of "[40, 25, 70]"] by simp
qed

section \<open>Array search\<close>

lemma findIndex_range:
  "findIndex P xs = -1 \<or> (0 \<le> findIndex P xs \<and> findIndex P xs < int (length xs))"
  by (induction xs) (auto simp: Let_def)

lemma findIndex_ge: "- 1 \<le> findIndex P xs"
  using findIndex_range [of P xs] by auto

lemma findIndex_none: "findIndex P xs = -1 \<longleftrightarrow> (\<forall>v \<in> set xs. \<not> P v)"
proof (induction xs)
  case Nil
  show ?case by simp
next
  case (Cons v vs)
  have "findIndex P vs + 1 \<noteq> -1" using findIndex_ge [of P vs] by linarith
  with Cons show ?case by (auto simp: Let_def)
qed

lemma findIndex_sat:
  "findIndex P xs \<noteq> -1 \<Longrightarrow> P (xs ! nat (findIndex P xs))"
proof (induction xs)
  case Nil
  then show ?case by simp
next
  case (Cons v vs)
  show ?case
  proof (cases "P v")
    case True
    then show ?thesis by simp
  next
    case False
    with Cons.prems have ne: "findIndex P vs \<noteq> -1" by (auto simp: Let_def)
    then have "0 \<le> findIndex P vs" using findIndex_range [of P vs] by auto
    then have "nat (findIndex P vs + 1) = Suc (nat (findIndex P vs))" by simp
    with False ne Cons.IH show ?thesis by (simp add: Let_def)
  qed
qed

lemma findIndex_least:
  "j < length xs \<Longrightarrow> P (xs ! j) \<Longrightarrow> findIndex P xs \<noteq> -1 \<and> findIndex P xs \<le> int j"
proof (induction xs arbitrary: j)
  case Nil
  then show ?case by simp
next
  case (Cons v vs)
  show ?case
  proof (cases "P v")
    case True
    then show ?thesis by simp
  next
    case False
    with Cons.prems obtain j' where j: "j = Suc j'" by (cases j) auto
    with Cons.prems have "j' < length vs" "P (vs ! j')" by auto
    from Cons.IH [OF this] have "findIndex P vs \<noteq> -1" "findIndex P vs \<le> int j'" by auto
    moreover have "findIndex P vs + 1 \<noteq> -1" using findIndex_ge [of P vs] by linarith
    ultimately show ?thesis using False j by (simp add: Let_def)
  qed
qed

lemma findIndex_mono:
  assumes "\<And>v. Q v \<Longrightarrow> P v" and "findIndex Q xs \<noteq> -1"
  shows "findIndex P xs \<le> findIndex Q xs"
proof -
  have r: "0 \<le> findIndex Q xs \<and> findIndex Q xs < int (length xs)"
    using findIndex_range [of Q xs] assms(2) by auto
  then have "nat (findIndex Q xs) < length xs" by (simp add: nat_less_iff)
  moreover have "P (xs ! nat (findIndex Q xs))"
    using findIndex_sat [OF assms(2)] assms(1) by simp
  ultimately have "findIndex P xs \<le> int (nat (findIndex Q xs))"
    using findIndex_least by blast
  with r show ?thesis by simp
qed

declare walkBack.simps [simp del]

lemma walkBack_le: "walkBack offsets pos i \<le> i"
proof (induction offsets pos i rule: walkBack.induct)
  case (1 offsets pos i)
  show ?case
  proof (cases "js_gt (js_at offsets i) (Num pos)")
    case True
    with 1 have "walkBack offsets pos (i - 1) \<le> i - 1" by simp
    with True show ?thesis by (subst walkBack.simps) simp
  next
    case False
    then show ?thesis by (subst walkBack.simps) simp
  qed
qed

lemma js_gt_at: "js_gt (js_at offsets i) (Num pos) \<longleftrightarrow> 0 \<le> i \<and> i < int (length offsets) \<and> offsets ! nat i > pos"
  by (auto simp: js_at_def)

lemma walkBack_ge: "- 1 \<le> i \<Longrightarrow> - 1 \<le> walkBack offsets pos i"
proof (induction offsets pos i rule: walkBack.induct)
  case (1 offsets pos i)
  show ?case
  proof (cases "js_gt (js_at offsets i) (Num pos)")
    case True
    then have "0 \<le> i" by (simp add: js_gt_at)
    with 1 True have "- 1 \<le> walkBack offsets pos (i - 1)" by simp
    with True show ?thesis by (subst walkBack.simps) simp
  next
    case False
    with 1 show ?thesis by (subst walkBack.simps) simp
  qed
qed

lemma walkBack_stop: "\<not> js_gt (js_at offsets (walkBack offsets pos i)) (Num pos)"
proof (induction offsets pos i rule: walkBack.induct)
  case (1 offsets pos i)
  show ?case
  proof (cases "js_gt (js_at offsets i) (Num pos)")
    case True
    with 1 show ?thesis by (subst walkBack.simps) simp
  next
    case False
    then show ?thesis by (subst walkBack.simps) simp
  qed
qed

section \<open>Visible bounds\<close>

lemma visibleFrom_bounds:
  "- 1 \<le> visibleFrom offsets pos \<and> visibleFrom offsets pos < int (length offsets)"
proof -
  have "visibleFrom offsets pos \<le> findIndex (\<lambda>v. v \<ge> pos) offsets"
    by (simp add: visibleFrom_def walkBack_le)
  moreover have "findIndex (\<lambda>v. v \<ge> pos) offsets < int (length offsets)"
    using findIndex_range [of "\<lambda>v. v \<ge> pos" offsets] by auto
  moreover have "- 1 \<le> visibleFrom offsets pos"
    by (simp add: visibleFrom_def walkBack_ge findIndex_ge)
  ultimately show ?thesis by linarith
qed

lemma visibleFrom_at:
  "0 \<le> visibleFrom offsets pos \<Longrightarrow> offsets ! nat (visibleFrom offsets pos) \<le> pos"
  using walkBack_stop [where offsets = offsets and pos = pos
          and i = "findIndex (\<lambda>v. v \<ge> pos) offsets"]
        visibleFrom_bounds [of offsets pos]
  by (simp add: visibleFrom_def js_gt_at)

lemma visibleTo_bounds:
  "0 \<le> visibleTo offsets (length offsets) pos extent
   \<and> visibleTo offsets (length offsets) pos extent \<le> int (length offsets)"
  using findIndex_range [of "\<lambda>v. v \<ge> pos + extent" offsets]
  by (auto simp: visibleTo_def Let_def)

lemma visibleFrom_le_visibleTo:
  assumes "0 \<le> extent"
  shows "visibleFrom offsets pos \<le> visibleTo offsets (length offsets) pos extent"
proof (cases "extent = 0 \<or> findIndex (\<lambda>v. v \<ge> pos + extent) offsets = -1")
  case True
  then have "visibleTo offsets (length offsets) pos extent = int (length offsets)"
    by (auto simp: visibleTo_def Let_def)
  with visibleFrom_bounds [of offsets pos] show ?thesis by simp
next
  case False
  then have vt: "visibleTo offsets (length offsets) pos extent
      = findIndex (\<lambda>v. v \<ge> pos + extent) offsets"
    by (auto simp: visibleTo_def Let_def)
  have "findIndex (\<lambda>v. v \<ge> pos) offsets \<le> findIndex (\<lambda>v. v \<ge> pos + extent) offsets"
    using False assms by (intro findIndex_mono) auto
  moreover have "visibleFrom offsets pos \<le> findIndex (\<lambda>v. v \<ge> pos) offsets"
    by (simp add: visibleFrom_def walkBack_le)
  ultimately show ?thesis using vt by simp
qed

section \<open>The size and offset tables\<close>

lemma length_calculateSizes [simp]: "length (calculateSizes itemSize count) = count"
  by (cases itemSize) simp_all

lemma length_rowHeights [simp]: "length (rowHeights p) = numRows p"
  by (simp add: rowHeights_def)

lemma length_rowOffsets [simp]: "length (rowOffsets p) = numRows p"
  by (simp add: rowOffsets_def)

lemma length_colWidths [simp]: "length (colWidths p) = numCols p"
  by (simp add: colWidths_def)

lemma length_colOffsets [simp]: "length (colOffsets p) = numCols p"
  by (simp add: colOffsets_def)

lemma sum_list_take_mono:
  fixes sizes :: "rat list"
  assumes "\<forall>v \<in> set sizes. 0 \<le> v" and "i \<le> j"
  shows "sum_list (take i sizes) \<le> sum_list (take j sizes)"
proof -
  have "take j sizes = take i sizes @ take (j - i) (drop i sizes)"
    using assms(2) by (metis le_add_diff_inverse take_add)
  moreover have "0 \<le> sum_list (take (j - i) (drop i sizes))"
    using assms(1) by (intro sum_list_nonneg) (meson in_set_dropD in_set_takeD)
  ultimately show ?thesis by simp
qed

lemma calculateOffsets_mono:
  fixes sizes :: "rat list"
  assumes "\<forall>v \<in> set sizes. 0 \<le> v" and "i \<le> j" and "j < length sizes"
  shows "calculateOffsets sizes ! i \<le> calculateOffsets sizes ! j"
  using assms by (simp add: nth_calculateOffsets sum_list_take_mono)

lemma calculateOffsets_Suc:
  fixes sizes :: "rat list"
  assumes "Suc i < length sizes"
  shows "calculateOffsets sizes ! Suc i = calculateOffsets sizes ! i + sizes ! i"
  using assms by (simp add: nth_calculateOffsets take_Suc_conv_app_nth)

lemma calculateOffsets_nonneg:
  fixes sizes :: "rat list"
  assumes "\<forall>v \<in> set sizes. 0 \<le> v" and "i < length sizes"
  shows "0 \<le> calculateOffsets sizes ! i"
proof -
  have "0 \<le> sum_list (take i sizes)"
    using assms(1) by (intro sum_list_nonneg) (meson in_set_takeD)
  with assms(2) show ?thesis by (simp add: nth_calculateOffsets)
qed

lemma totalSize_width: "width (totalSize p) = sum_list (colWidths p)"
proof (cases "numCols p = 0")
  case True
  then have "colWidths p = []" using length_colWidths [of p] by (simp del: length_colWidths)
  with True show ?thesis by (simp add: totalSize_def)
next
  case False
  then have n: "numCols p - 1 < length (colWidths p)" by simp
  have "take (numCols p - 1) (colWidths p) @ [colWidths p ! (numCols p - 1)] = colWidths p"
    using False length_colWidths [of p]
    by (metis Suc_diff_1 n not_gr_zero take_Suc_conv_app_nth take_all order_refl)
  then have "sum_list (take (numCols p - 1) (colWidths p)) + colWidths p ! (numCols p - 1)
      = sum_list (colWidths p)"
    by (metis sum_list.append sum_list.Cons sum_list.Nil add.right_neutral)
  with False n show ?thesis
    by (simp add: totalSize_def colOffsets_def nth_calculateOffsets)
qed

lemma totalSize_height: "height (totalSize p) = sum_list (rowHeights p)"
proof (cases "numRows p = 0")
  case True
  then have "rowHeights p = []" using length_rowHeights [of p] by (simp del: length_rowHeights)
  with True show ?thesis by (simp add: totalSize_def)
next
  case False
  then have n: "numRows p - 1 < length (rowHeights p)" by simp
  have "take (numRows p - 1) (rowHeights p) @ [rowHeights p ! (numRows p - 1)] = rowHeights p"
    using False length_rowHeights [of p]
    by (metis Suc_diff_1 n not_gr_zero take_Suc_conv_app_nth take_all order_refl)
  then have "sum_list (take (numRows p - 1) (rowHeights p)) + rowHeights p ! (numRows p - 1)
      = sum_list (rowHeights p)"
    by (metis sum_list.append sum_list.Cons sum_list.Nil add.right_neutral)
  with False n show ?thesis
    by (simp add: totalSize_def rowOffsets_def nth_calculateOffsets)
qed

section \<open>What \<open>setOffset\<close> schedules and what the frame publishes\<close>

lemma rerender_fields [simp]:
  "renderWindowRef (rerender s) = renderWindowRef s"
  "rowsTranslateRef (rerender s) = rowsTranslateRef s"
  "offsetRef (rerender s) = offsetRef s"
  "rafPidRef (rerender s) = rafPidRef s"
  "scrollPidRef (rerender s) = scrollPidRef s"
  "touchInfoRef (rerender s) = touchInfoRef s"
  "windowSizeRef (rerender s) = windowSizeRef s"
  "renderFlag (rerender s) = renderFlag s"
  "stuckRowsRef (rerender s) = stuckRowsRef s"
  "stuckColsRef (rerender s) = stuckColsRef s"
  "intervals (rerender s) = intervals s"
  "nextPid (rerender s) = nextPid s"
  "renderedSize (rerender s) = windowSizeRef s"
  "firstRefs (rerender s) = False"
  by (simp_all add: rerender_def)

lemma same_iff [simp]: "same nums1 nums2 \<longleftrightarrow> nums1 = nums2"
proof
  assume "same nums1 nums2"
  then have "length nums1 = length nums2" and "\<forall>i < length nums1. nums1 ! i = nums2 ! i"
    by (simp_all add: same_def list_all_iff split: if_splits)
  then show "nums1 = nums2" by (simp add: nth_equalityI)
next
  assume "nums1 = nums2"
  then show "same nums1 nums2" by (simp add: same_def list_all_iff)
qed

lemma setOffset_accepted:
  "fst (setOffset p cellsElmnt stickyRowsElmnt stickyColsElmnt offset force s) \<longleftrightarrow>
     cellsElmnt \<and> stickyRowsElmnt \<and> stickyColsElmnt \<and>
     (force \<or> off_x (offsetRef s) \<noteq> off_x offset \<or> off_y (offsetRef s) \<noteq> off_y offset)"
  by (simp add: setOffset_def Let_def split_beta)

lemma setOffset_rejected:
  assumes "\<not> fst (setOffset p cellsElmnt stickyRowsElmnt stickyColsElmnt offset force s)"
  shows "snd (setOffset p cellsElmnt stickyRowsElmnt stickyColsElmnt offset force s) = s"
proof -
  from assms have "\<not> (cellsElmnt \<and> stickyRowsElmnt \<and> stickyColsElmnt \<and>
     (force \<or> off_x (offsetRef s) \<noteq> off_x offset \<or> off_y (offsetRef s) \<noteq> off_y offset))"
    by (simp add: setOffset_accepted)
  then show ?thesis
    unfolding setOffset_def by (simp only: if_False snd_conv not_False_eq_True)
qed

lemma setOffset_frame:
  assumes "fst (setOffset p cellsElmnt stickyRowsElmnt stickyColsElmnt offset force s)"
  shows "\<exists>f. snd (setOffset p cellsElmnt stickyRowsElmnt stickyColsElmnt offset force s)
            = s\<lparr> offsetRef := offset, rafPidRef := Some f \<rparr>
       \<and> f_offset f = offset
       \<and> f_renderWindow f = renderWindowRef s
       \<and> (f_fromRow f, f_toRow f) =
           hysteresis (renderBatchSize p) (int (numRows p))
             (visibleFrom (rowOffsets p) (off_y offset))
             (visibleTo (rowOffsets p) (numRows p) (off_y offset) (height (windowSizeRef s)))
             (fromRow (renderWindowRef s), toRow (renderWindowRef s))
       \<and> (f_fromCol f, f_toCol f) =
           hysteresis (renderBatchSize p) (int (numCols p))
             (visibleFrom (colOffsets p) (off_x offset))
             (visibleTo (colOffsets p) (numCols p) (off_x offset) (width (windowSizeRef s)))
             (fromCol (renderWindowRef s), toCol (renderWindowRef s))
       \<and> f_stuckRows f = filter_idx
           (\<lambda>r i. js_lt (js_at (rowOffsets p) r - stickyRowOffsets p ! i) (Num (off_y offset)))
           (sortedStickyRows p)
       \<and> f_stuckCols f = filter_idx
           (\<lambda>c i. js_lt (js_at (colOffsets p) c - stickyColOffsets p ! i) (Num (off_x offset)))
           (sortedStickyCols p)"
proof -
  from assms have c: "cellsElmnt \<and> stickyRowsElmnt \<and> stickyColsElmnt \<and>
     (force \<or> off_x (offsetRef s) \<noteq> off_x offset \<or> off_y (offsetRef s) \<noteq> off_y offset)"
    by (simp only: setOffset_accepted)
  let ?vfr = "visibleFrom (rowOffsets p) (off_y offset)"
  let ?vtr = "visibleTo (rowOffsets p) (numRows p) (off_y offset) (height (windowSizeRef s))"
  let ?vfc = "visibleFrom (colOffsets p) (off_x offset)"
  let ?vtc = "visibleTo (colOffsets p) (numCols p) (off_x offset) (width (windowSizeRef s))"
  let ?w = "renderWindowRef s"
  let ?R = "hysteresis (renderBatchSize p) (int (numRows p)) ?vfr ?vtr (fromRow ?w, toRow ?w)"
  let ?C = "hysteresis (renderBatchSize p) (int (numCols p)) ?vfc ?vtc (fromCol ?w, toCol ?w)"
  let ?f = "\<lparr> f_offset = offset, f_renderWindow = ?w,
              f_fromRow = fst ?R, f_toRow = snd ?R, f_fromCol = fst ?C, f_toCol = snd ?C,
              f_stuckRows = filter_idx
                (\<lambda>r i. js_lt (js_at (rowOffsets p) r - stickyRowOffsets p ! i) (Num (off_y offset)))
                (sortedStickyRows p),
              f_stuckCols = filter_idx
                (\<lambda>c i. js_lt (js_at (colOffsets p) c - stickyColOffsets p ! i) (Num (off_x offset)))
                (sortedStickyCols p) \<rparr>"
  have "snd (setOffset p cellsElmnt stickyRowsElmnt stickyColsElmnt offset force s)
      = s\<lparr> offsetRef := offset, rafPidRef := Some ?f \<rparr>"
    unfolding setOffset_def using c
    by (simp add: Let_def split_beta hysteresis_def)
  then show ?thesis
    by (intro exI [of _ ?f]) simp
qed

lemma renderWindow_fields:
  "\<lparr> fromRow = fromRow w, toRow = toRow w, fromCol = fromCol w, toCol = toCol w \<rparr> = w"
  by simp

lemma runFrame_pending:
  assumes "rafPidRef s = Some f" and "f_renderWindow f = renderWindowRef s"
  shows "renderWindowRef (runFrame p s)
           = \<lparr> fromRow = f_fromRow f, toRow = f_toRow f,
               fromCol = f_fromCol f, toCol = f_toCol f \<rparr>"
    and "stuckRowsRef (runFrame p s) = f_stuckRows f"
    and "stuckColsRef (runFrame p s) = f_stuckCols f"
    and "rowsTranslateRef (runFrame p s)
           = \<lparr> off_x = - off_x (f_offset f) + or0 (js_at (colOffsets p) (f_fromCol f)),
               off_y = - off_y (f_offset f) + or0 (js_at (rowOffsets p) (f_fromRow f)) \<rparr>"
    and "offsetRef (runFrame p s) = offsetRef s"
    and "windowSizeRef (runFrame p s) = windowSizeRef s"
    and "rafPidRef (runFrame p s) = None"
proof -
  let ?w = "renderWindowRef s"
  show "renderWindowRef (runFrame p s)
           = \<lparr> fromRow = f_fromRow f, toRow = f_toRow f,
               fromCol = f_fromCol f, toCol = f_toCol f \<rparr>"
  proof (cases "f_fromRow f = fromRow ?w \<and> f_toRow f = toRow ?w
              \<and> f_fromCol f = fromCol ?w \<and> f_toCol f = toCol ?w")
    case True
    then have "\<lparr> fromRow = f_fromRow f, toRow = f_toRow f,
               fromCol = f_fromCol f, toCol = f_toCol f \<rparr> = ?w"
      by simp
    with assms show ?thesis by (simp add: runFrame_def Let_def)
  next
    case False
    with assms show ?thesis by (auto simp: runFrame_def Let_def)
  qed
  show "stuckRowsRef (runFrame p s) = f_stuckRows f"
    using assms by (auto simp: runFrame_def Let_def)
  show "stuckColsRef (runFrame p s) = f_stuckCols f"
    using assms by (auto simp: runFrame_def Let_def)
  show "rowsTranslateRef (runFrame p s)
           = \<lparr> off_x = - off_x (f_offset f) + or0 (js_at (colOffsets p) (f_fromCol f)),
               off_y = - off_y (f_offset f) + or0 (js_at (rowOffsets p) (f_fromRow f)) \<rparr>"
    using assms by (simp add: runFrame_def Let_def)
  show "offsetRef (runFrame p s) = offsetRef s"
    using assms by (simp add: runFrame_def Let_def)
  show "windowSizeRef (runFrame p s) = windowSizeRef s"
    using assms by (simp add: runFrame_def Let_def)
  show "rafPidRef (runFrame p s) = None"
    using assms by (simp add: runFrame_def Let_def)
qed

text \<open>The state after an accepted \<open>setOffset\<close> and the frame it scheduled.\<close>

lemma resolved:
  assumes "fst (setOffset p cellsElmnt stickyRowsElmnt stickyColsElmnt offset force s)"
  defines "s1 \<equiv> runFrame p (snd (setOffset p cellsElmnt stickyRowsElmnt stickyColsElmnt offset force s))"
  shows "(fromRow (renderWindowRef s1), toRow (renderWindowRef s1)) =
           hysteresis (renderBatchSize p) (int (numRows p))
             (visibleFrom (rowOffsets p) (off_y offset))
             (visibleTo (rowOffsets p) (numRows p) (off_y offset) (height (windowSizeRef s)))
             (fromRow (renderWindowRef s), toRow (renderWindowRef s))"
    and "(fromCol (renderWindowRef s1), toCol (renderWindowRef s1)) =
           hysteresis (renderBatchSize p) (int (numCols p))
             (visibleFrom (colOffsets p) (off_x offset))
             (visibleTo (colOffsets p) (numCols p) (off_x offset) (width (windowSizeRef s)))
             (fromCol (renderWindowRef s), toCol (renderWindowRef s))"
    and "stuckRowsRef s1 = filter_idx
           (\<lambda>r i. js_lt (js_at (rowOffsets p) r - stickyRowOffsets p ! i) (Num (off_y offset)))
           (sortedStickyRows p)"
    and "stuckColsRef s1 = filter_idx
           (\<lambda>c i. js_lt (js_at (colOffsets p) c - stickyColOffsets p ! i) (Num (off_x offset)))
           (sortedStickyCols p)"
    and "rowsTranslateRef s1
           = \<lparr> off_x = - off_x offset + or0 (js_at (colOffsets p) (fromCol (renderWindowRef s1))),
               off_y = - off_y offset + or0 (js_at (rowOffsets p) (fromRow (renderWindowRef s1))) \<rparr>"
    and "offsetRef s1 = offset"
    and "windowSizeRef s1 = windowSizeRef s"
    and "rafPidRef s1 = None"
proof -
  from setOffset_frame [OF assms(1)] obtain f where
    s: "snd (setOffset p cellsElmnt stickyRowsElmnt stickyColsElmnt offset force s)
            = s\<lparr> offsetRef := offset, rafPidRef := Some f \<rparr>"
    and f: "f_offset f = offset" "f_renderWindow f = renderWindowRef s"
    and rw: "(f_fromRow f, f_toRow f) =
           hysteresis (renderBatchSize p) (int (numRows p))
             (visibleFrom (rowOffsets p) (off_y offset))
             (visibleTo (rowOffsets p) (numRows p) (off_y offset) (height (windowSizeRef s)))
             (fromRow (renderWindowRef s), toRow (renderWindowRef s))"
    and cl: "(f_fromCol f, f_toCol f) =
           hysteresis (renderBatchSize p) (int (numCols p))
             (visibleFrom (colOffsets p) (off_x offset))
             (visibleTo (colOffsets p) (numCols p) (off_x offset) (width (windowSizeRef s)))
             (fromCol (renderWindowRef s), toCol (renderWindowRef s))"
    and st: "f_stuckRows f = filter_idx
           (\<lambda>r i. js_lt (js_at (rowOffsets p) r - stickyRowOffsets p ! i) (Num (off_y offset)))
           (sortedStickyRows p)"
      "f_stuckCols f = filter_idx
           (\<lambda>c i. js_lt (js_at (colOffsets p) c - stickyColOffsets p ! i) (Num (off_x offset)))
           (sortedStickyCols p)"
    by blast
  let ?s0 = "s\<lparr> offsetRef := offset, rafPidRef := Some f \<rparr>"
  have p1: "rafPidRef ?s0 = Some f" and p2: "f_renderWindow f = renderWindowRef ?s0"
    using f by simp_all
  note R = runFrame_pending [OF p1 p2, of p]
  have s1: "s1 = runFrame p ?s0" by (simp add: s1_def s)
  show "(fromRow (renderWindowRef s1), toRow (renderWindowRef s1)) =
           hysteresis (renderBatchSize p) (int (numRows p))
             (visibleFrom (rowOffsets p) (off_y offset))
             (visibleTo (rowOffsets p) (numRows p) (off_y offset) (height (windowSizeRef s)))
             (fromRow (renderWindowRef s), toRow (renderWindowRef s))"
    by (simp only: s1 R(1) renderWindow.simps rw)
  show "(fromCol (renderWindowRef s1), toCol (renderWindowRef s1)) =
           hysteresis (renderBatchSize p) (int (numCols p))
             (visibleFrom (colOffsets p) (off_x offset))
             (visibleTo (colOffsets p) (numCols p) (off_x offset) (width (windowSizeRef s)))
             (fromCol (renderWindowRef s), toCol (renderWindowRef s))"
    by (simp only: s1 R(1) renderWindow.simps cl)
  show "stuckRowsRef s1 = filter_idx
           (\<lambda>r i. js_lt (js_at (rowOffsets p) r - stickyRowOffsets p ! i) (Num (off_y offset)))
           (sortedStickyRows p)"
    by (simp only: s1 R(2) st)
  show "stuckColsRef s1 = filter_idx
           (\<lambda>c i. js_lt (js_at (colOffsets p) c - stickyColOffsets p ! i) (Num (off_x offset)))
           (sortedStickyCols p)"
    by (simp only: s1 R(3) st)
  show "rowsTranslateRef s1
           = \<lparr> off_x = - off_x offset + or0 (js_at (colOffsets p) (fromCol (renderWindowRef s1))),
               off_y = - off_y offset + or0 (js_at (rowOffsets p) (fromRow (renderWindowRef s1))) \<rparr>"
    by (simp only: s1 R(1) R(4) renderWindow.simps f)
  show "offsetRef s1 = offset" by (simp add: s1 R(5))
  show "windowSizeRef s1 = windowSizeRef s" by (simp add: s1 R(6))
  show "rafPidRef s1 = None" by (simp only: s1 R(7))
qed

section \<open>The hysteresis rule keeps the window in bounds and around the visible range\<close>

lemma hysteresis_bounds:
  assumes "(lo1, hi1) = hysteresis batch count vFrom vTo (lo, hi)"
      and "0 \<le> batch" and "vFrom \<le> vTo" and "0 \<le> vTo" and "vTo \<le> count"
  shows "0 \<le> lo1 \<and> lo1 \<le> hi1 \<and> hi1 \<le> count \<and> lo1 \<le> max vFrom 0 \<and> vTo \<le> hi1"
  using assms by (auto simp: hysteresis_def split: if_splits)

lemma visible_lower:
  fixes sizes :: "rat list"
  assumes nn: "\<forall>v \<in> set sizes. 0 \<le> v" and i: "i < length sizes"
      and vis: "pos < calculateOffsets sizes ! i + sizes ! i"
  shows "visibleFrom (calculateOffsets sizes) pos \<le> int i"
proof (rule ccontr)
  let ?offs = "calculateOffsets sizes"
  let ?vf = "visibleFrom ?offs pos"
  assume "\<not> ?vf \<le> int i"
  then have gt: "int i < ?vf" by simp
  then have vf0: "0 \<le> ?vf" by simp
  have lt: "?vf < int (length sizes)"
    using visibleFrom_bounds [of ?offs pos] by simp
  from gt vf0 have le: "Suc i \<le> nat ?vf" by linarith
  from lt vf0 have n: "nat ?vf < length sizes" by linarith
  from le n have si: "Suc i < length sizes" by simp
  have "?offs ! Suc i \<le> ?offs ! nat ?vf"
    using calculateOffsets_mono [OF nn le n] .
  moreover have "?offs ! nat ?vf \<le> pos" using visibleFrom_at [OF vf0] .
  moreover have "?offs ! Suc i = ?offs ! i + sizes ! i" using calculateOffsets_Suc [OF si] .
  ultimately show False using vis by simp
qed

lemma visible_upper:
  fixes sizes :: "rat list"
  assumes nn: "\<forall>v \<in> set sizes. 0 \<le> v" and i: "i < length sizes"
      and vis: "calculateOffsets sizes ! i < pos + extent"
  shows "int i < visibleTo (calculateOffsets sizes) (length sizes) pos extent"
proof (cases "extent = 0 \<or> findIndex (\<lambda>v. v \<ge> pos + extent) (calculateOffsets sizes) = -1")
  case True
  then have "visibleTo (calculateOffsets sizes) (length sizes) pos extent = int (length sizes)"
    by (auto simp: visibleTo_def Let_def)
  with i show ?thesis by simp
next
  case False
  let ?offs = "calculateOffsets sizes"
  let ?k = "findIndex (\<lambda>v. v \<ge> pos + extent) ?offs"
  from False have vt: "visibleTo ?offs (length sizes) pos extent = ?k"
    by (auto simp: visibleTo_def Let_def)
  from False have ne: "?k \<noteq> -1" by simp
  then have k: "0 \<le> ?k" "?k < int (length sizes)"
    using findIndex_range [of "\<lambda>v. v \<ge> pos + extent" ?offs] by auto
  have sat: "pos + extent \<le> ?offs ! nat ?k" using findIndex_sat [OF ne] .
  show ?thesis
  proof (rule ccontr)
    assume "\<not> int i < visibleTo ?offs (length sizes) pos extent"
    with vt have "?k \<le> int i" by simp
    with k have "nat ?k \<le> i" by linarith
    from calculateOffsets_mono [OF nn this i] have "?offs ! nat ?k \<le> ?offs ! i" .
    with sat vis show False by simp
  qed
qed

section \<open>C1: the render window is in bounds and holds the visible range\<close>

text \<open>
  C1. After window resolution (an accepted \<open>setOffset\<close> and the frame it schedules), for
  every offset, every viewport of non-negative size, a non-negative batch size and
  non-negative row and column sizes: the render window satisfies
  \<open>0 \<le> fromRow \<le> toRow \<le> numRows\<close> and \<open>0 \<le> fromCol \<le> toCol \<le> numCols\<close>, and it holds
  the visible range, both as computed directly from the offset and the viewport (the rows
  and columns whose extent meets the viewport) and as \<open>setOffset\<close> computes it (the valid
  indices from \<open>visibleFrom\<close> up to \<open>visibleTo\<close>).
\<close>

theorem render_window_superset:
  assumes acc: "fst (setOffset p cellsElmnt stickyRowsElmnt stickyColsElmnt offset force s)"
      and vw: "0 \<le> width (windowSizeRef s)" and vh: "0 \<le> height (windowSizeRef s)"
      and batch: "0 \<le> renderBatchSize p"
      and rh: "\<forall>v \<in> set (rowHeights p). 0 \<le> v"
      and cw: "\<forall>v \<in> set (colWidths p). 0 \<le> v"
  shows "let w = renderWindowRef (runFrame p
                   (snd (setOffset p cellsElmnt stickyRowsElmnt stickyColsElmnt offset force s)))
         in 0 \<le> fromRow w \<and> fromRow w \<le> toRow w \<and> toRow w \<le> int (numRows p)
          \<and> 0 \<le> fromCol w \<and> fromCol w \<le> toCol w \<and> toCol w \<le> int (numCols p)
          \<and> (\<forall>i \<in> set (visibleRows p offset (windowSizeRef s)).
                fromRow w \<le> int i \<and> int i < toRow w)
          \<and> (\<forall>i \<in> set (visibleCols p offset (windowSizeRef s)).
                fromCol w \<le> int i \<and> int i < toCol w)
          \<and> (\<forall>i. 0 \<le> i \<and> visibleFrom (rowOffsets p) (off_y offset) \<le> i
                  \<and> i < visibleTo (rowOffsets p) (numRows p) (off_y offset)
                          (height (windowSizeRef s))
                \<longrightarrow> fromRow w \<le> i \<and> i < toRow w)
          \<and> (\<forall>i. 0 \<le> i \<and> visibleFrom (colOffsets p) (off_x offset) \<le> i
                  \<and> i < visibleTo (colOffsets p) (numCols p) (off_x offset)
                          (width (windowSizeRef s))
                \<longrightarrow> fromCol w \<le> i \<and> i < toCol w)"
proof -
  let ?w = "renderWindowRef (runFrame p
              (snd (setOffset p cellsElmnt stickyRowsElmnt stickyColsElmnt offset force s)))"
  let ?vfr = "visibleFrom (rowOffsets p) (off_y offset)"
  let ?vtr = "visibleTo (rowOffsets p) (numRows p) (off_y offset) (height (windowSizeRef s))"
  let ?vfc = "visibleFrom (colOffsets p) (off_x offset)"
  let ?vtc = "visibleTo (colOffsets p) (numCols p) (off_x offset) (width (windowSizeRef s))"
  have r1: "?vfr \<le> ?vtr"
    using visibleFrom_le_visibleTo [OF vh, of "rowOffsets p" "off_y offset"] by simp
  have r2: "0 \<le> ?vtr \<and> ?vtr \<le> int (numRows p)"
    using visibleTo_bounds [of "rowOffsets p" "off_y offset" "height (windowSizeRef s)"] by simp
  have c1: "?vfc \<le> ?vtc"
    using visibleFrom_le_visibleTo [OF vw, of "colOffsets p" "off_x offset"] by simp
  have c2: "0 \<le> ?vtc \<and> ?vtc \<le> int (numCols p)"
    using visibleTo_bounds [of "colOffsets p" "off_x offset" "width (windowSizeRef s)"] by simp
  have R: "0 \<le> fromRow ?w \<and> fromRow ?w \<le> toRow ?w \<and> toRow ?w \<le> int (numRows p)
         \<and> fromRow ?w \<le> max ?vfr 0 \<and> ?vtr \<le> toRow ?w"
    using hysteresis_bounds [OF resolved(1) [OF acc] batch r1] r2 by blast
  have C: "0 \<le> fromCol ?w \<and> fromCol ?w \<le> toCol ?w \<and> toCol ?w \<le> int (numCols p)
         \<and> fromCol ?w \<le> max ?vfc 0 \<and> ?vtc \<le> toCol ?w"
    using hysteresis_bounds [OF resolved(2) [OF acc] batch c1] c2 by blast
  have VR: "fromRow ?w \<le> int i \<and> int i < toRow ?w"
    if "i \<in> set (visibleRows p offset (windowSizeRef s))" for i
  proof -
    from that have i: "i < length (rowHeights p)"
      and up: "calculateOffsets (rowHeights p) ! i < off_y offset + height (windowSizeRef s)"
      and lo: "off_y offset < calculateOffsets (rowHeights p) ! i + rowHeights p ! i"
      by (simp_all add: visibleRows_def rowOffsets_def)
    have "?vfr \<le> int i"
      using visible_lower [OF rh i lo] by (simp add: rowOffsets_def)
    moreover have "int i < ?vtr"
      using visible_upper [OF rh i up] by (simp add: rowOffsets_def)
    ultimately show ?thesis using R by linarith
  qed
  have VC: "fromCol ?w \<le> int i \<and> int i < toCol ?w"
    if "i \<in> set (visibleCols p offset (windowSizeRef s))" for i
  proof -
    from that have i: "i < length (colWidths p)"
      and up: "calculateOffsets (colWidths p) ! i < off_x offset + width (windowSizeRef s)"
      and lo: "off_x offset < calculateOffsets (colWidths p) ! i + colWidths p ! i"
      by (simp_all add: visibleCols_def colOffsets_def)
    have "?vfc \<le> int i"
      using visible_lower [OF cw i lo] by (simp add: colOffsets_def)
    moreover have "int i < ?vtc"
      using visible_upper [OF cw i up] by (simp add: colOffsets_def)
    ultimately show ?thesis using C by linarith
  qed
  have IR: "fromRow ?w \<le> i \<and> i < toRow ?w" if "0 \<le> i \<and> ?vfr \<le> i \<and> i < ?vtr" for i
    using that R by linarith
  have IC: "fromCol ?w \<le> i \<and> i < toCol ?w" if "0 \<le> i \<and> ?vfc \<le> i \<and> i < ?vtc" for i
    using that C by linarith
  from R C VR VC IR IC show ?thesis
    unfolding Let_def by blast
qed

theorem render_window_superset_witness:
  "fst (setOffset tenRows True True True \<lparr> off_x = 0, off_y = 130 \<rparr> False
          (reflow tenRows True True True True 200 100 (initState tenRows)))
   \<and> renderBatchSize tenRows = 5
   \<and> rowHeights tenRows = replicate 10 40
   \<and> colWidths tenRows = [80]
   \<and> visibleRows tenRows \<lparr> off_x = 0, off_y = 130 \<rparr> \<lparr> width = 200, height = 100 \<rparr>
       = [3, 4, 5]
   \<and> renderWindowRef (runFrame tenRows
        (snd (setOffset tenRows True True True \<lparr> off_x = 0, off_y = 130 \<rparr> False
               (reflow tenRows True True True True 200 100 (initState tenRows)))))
       = \<lparr> fromRow = 3, toRow = 10, fromCol = 0, toCol = 1 \<rparr>
   \<and> (3::int) \<le> int 3 \<and> int 5 < (10::int)"
proof -
  let ?s = "reflow tenRows True True True True 200 100 (initState tenRows)"
  let ?o = "\<lparr> off_x = 0, off_y = 130 \<rparr>"
  have acc: "fst (setOffset tenRows True True True ?o False ?s)" by code_simp
  have ws: "windowSizeRef ?s = \<lparr> width = 200, height = 100 \<rparr>" by code_simp
  have vw: "0 \<le> width (windowSizeRef ?s)" by code_simp
  have vh: "0 \<le> height (windowSizeRef ?s)" by code_simp
  have b: "renderBatchSize tenRows = 5" by code_simp
  then have batch: "0 \<le> renderBatchSize tenRows" by simp
  have rhs: "rowHeights tenRows = replicate 10 40" by code_simp
  have cws: "colWidths tenRows = [80]" by code_simp
  have rh: "\<forall>v \<in> set (rowHeights tenRows). 0 \<le> v" by (simp add: rhs)
  have cw: "\<forall>v \<in> set (colWidths tenRows). 0 \<le> v" by (simp add: cws)
  have vr: "visibleRows tenRows ?o \<lparr> width = 200, height = 100 \<rparr> = [3, 4, 5]"
    by code_simp
  have w: "renderWindowRef (runFrame tenRows
             (snd (setOffset tenRows True True True ?o False ?s)))
           = \<lparr> fromRow = 3, toRow = 10, fromCol = 0, toCol = 1 \<rparr>"
    by code_simp
  note T = render_window_superset [OF acc vw vh batch rh cw, unfolded Let_def w ws vr]
  from T have "(3::int) \<le> int 3 \<and> int 5 < (10::int)" by simp
  with acc b rhs cws vr w show ?thesis by (simp only: simp_thms)
qed

section \<open>C3: the hysteresis rule\<close>




section \<open>\<open>scroll\<close>\<close>

lemma scroll_fits:
  assumes "width (totalSize p) \<le> width (windowSizeRef s)
         \<and> height (totalSize p) \<le> height (windowSizeRef s)"
  shows "scroll p cellsElmnt stickyRowsElmnt stickyColsElmnt deltaX deltaY s = s"
  using assms by (simp add: scroll_def)

lemma setOffset_offsetRef:
  "offsetRef (snd (setOffset p cellsElmnt stickyRowsElmnt stickyColsElmnt offset force s))
     = (if fst (setOffset p cellsElmnt stickyRowsElmnt stickyColsElmnt offset force s)
        then offset else offsetRef s)"
proof (cases "fst (setOffset p cellsElmnt stickyRowsElmnt stickyColsElmnt offset force s)")
  case True
  from setOffset_frame [OF True] obtain f where
    "snd (setOffset p cellsElmnt stickyRowsElmnt stickyColsElmnt offset force s)
       = s\<lparr> offsetRef := offset, rafPidRef := Some f \<rparr>" by blast
  with True show ?thesis by simp
next
  case False
  with setOffset_rejected [OF False] show ?thesis by simp
qed

lemma scroll_offsetRef:
  fixes deltaX deltaY :: rat
  assumes "\<not> (width (totalSize p) \<le> width (windowSizeRef s)
         \<and> height (totalSize p) \<le> height (windowSizeRef s))"
  defines "cand \<equiv> \<lparr> off_x = min (off_x (maxOffset p s))
                 (max 0 (off_x (offsetRef s)
                    + (if width (windowSizeRef s) = 0 then 0 else deltaX) * scrollSpeed p)),
               off_y = min (off_y (maxOffset p s))
                 (max 0 (off_y (offsetRef s)
                    + (if height (windowSizeRef s) = 0 then 0 else deltaY) * scrollSpeed p)) \<rparr>"
  shows "offsetRef (scroll p cellsElmnt stickyRowsElmnt stickyColsElmnt deltaX deltaY s)
     = (if fst (setOffset p cellsElmnt stickyRowsElmnt stickyColsElmnt cand False s)
        then cand else offsetRef s)"
proof -
  have "offsetRef (scroll p cellsElmnt stickyRowsElmnt stickyColsElmnt deltaX deltaY s)
      = offsetRef (snd (setOffset p cellsElmnt stickyRowsElmnt stickyColsElmnt cand False s))"
    unfolding scroll_def cand_def
    by (simp only: if_not_P [OF assms(1)]) (simp add: Let_def split_beta)
  then show ?thesis by (simp only: setOffset_offsetRef)
qed

lemma scroll_delta_unmeasured_x:
  assumes "width (windowSizeRef s) = 0"
  shows "scroll p cellsElmnt stickyRowsElmnt stickyColsElmnt deltaX deltaY s
       = scroll p cellsElmnt stickyRowsElmnt stickyColsElmnt 0 deltaY s"
  using assms by (simp add: scroll_def)

lemma scroll_delta_unmeasured_y:
  assumes "height (windowSizeRef s) = 0"
  shows "scroll p cellsElmnt stickyRowsElmnt stickyColsElmnt deltaX deltaY s
       = scroll p cellsElmnt stickyRowsElmnt stickyColsElmnt deltaX 0 s"
  using assms by (simp add: scroll_def)

section \<open>The \<open>maxOffset\<close> that \<open>scroll\<close> holds\<close>

text \<open>
  No handler but a render pass changes what the closures captured, and the resize observer
  changes the viewport size only while the refs of the first render hold their elements.
  So, in every state the component reaches with fixed props, the \<open>maxOffset\<close> of \<open>scroll\<close>
  is the total size until the component has rendered again, and the total size minus the
  current viewport size from then on.
\<close>

lemma setOffset_closure:
  "windowSizeRef (snd (setOffset p cellsElmnt stickyRowsElmnt stickyColsElmnt offset force s))
     = windowSizeRef s"
  "renderedSize (snd (setOffset p cellsElmnt stickyRowsElmnt stickyColsElmnt offset force s))
     = renderedSize s"
  "firstRefs (snd (setOffset p cellsElmnt stickyRowsElmnt stickyColsElmnt offset force s))
     = firstRefs s"
  by (simp_all add: setOffset_def Let_def split_beta)

lemma scroll_closure:
  "windowSizeRef (scroll p cellsElmnt stickyRowsElmnt stickyColsElmnt deltaX deltaY s)
     = windowSizeRef s"
  "renderedSize (scroll p cellsElmnt stickyRowsElmnt stickyColsElmnt deltaX deltaY s)
     = renderedSize s"
  "firstRefs (scroll p cellsElmnt stickyRowsElmnt stickyColsElmnt deltaX deltaY s)
     = firstRefs s"
  by (simp_all add: scroll_def Let_def split_beta setOffset_closure)

lemma tick_closure:
  "windowSizeRef (tick p cellsElmnt stickyRowsElmnt stickyColsElmnt pid s) = windowSizeRef s"
  "renderedSize (tick p cellsElmnt stickyRowsElmnt stickyColsElmnt pid s) = renderedSize s"
  "firstRefs (tick p cellsElmnt stickyRowsElmnt stickyColsElmnt pid s) = firstRefs s"
  by (simp_all add: tick_def Let_def split_beta scroll_closure split: option.splits)

lemma runFrame_closure:
  "windowSizeRef (runFrame p s) = windowSizeRef s"
  "(firstRefs (runFrame p s) = firstRefs s \<and> renderedSize (runFrame p s) = renderedSize s)
   \<or> (\<not> firstRefs (runFrame p s) \<and> renderedSize (runFrame p s) = windowSizeRef s)"
  by (auto simp: runFrame_def Let_def split: option.splits)

lemma rendered_handle:
  assumes inv: "if firstRefs s then renderedSize s = \<lparr> width = 0, height = 0 \<rparr>
                else renderedSize s = windowSizeRef s"
      and h: "handle p ev s = Some s1"
  shows "if firstRefs s1 then renderedSize s1 = \<lparr> width = 0, height = 0 \<rparr>
         else renderedSize s1 = windowSizeRef s1"
proof (cases ev)
  case (Resize w h')
  with h inv show ?thesis
    by (auto simp: reflow_def Let_def setOffset_closure split: if_splits)
next
  case (Wheel dx dy)
  with h inv show ?thesis by (auto simp: onWheel_def scroll_closure)
next
  case (TouchStart t x y)
  with h inv show ?thesis by (auto simp: onTouchStart_def Let_def split: option.splits)
next
  case (TouchMove t x y)
  with h inv show ?thesis by (auto simp: onTouchMove_def Let_def scroll_closure)
next
  case (TouchEnd t)
  with h inv show ?thesis by (auto simp: onTouchEnd_def Let_def split: if_splits)
next
  case (IntervalTick pid)
  with h inv show ?thesis
    by (auto simp: tick_closure)
next
  case AnimationFrame
  with h inv runFrame_closure [of p s] show ?thesis by (auto split: if_splits)
next
  case ScrollStopTimer
  with h inv show ?thesis by auto
next
  case Render
  with h inv show ?thesis by auto
qed

lemma rendered_reachable:
  assumes "reachable p s"
  shows "if firstRefs s then renderedSize s = \<lparr> width = 0, height = 0 \<rparr>
         else renderedSize s = windowSizeRef s"
  using assms
proof (induction rule: reachable.induct)
  case init
  show ?case by (simp add: initState_def)
next
  case (step s ev s1)
  from rendered_handle [OF step.IH step.hyps(2)] show ?case .
qed

lemma maxOffset_rendered:
  assumes "reachable p s"
  shows "maxOffset p s =
     (if firstRefs s then \<lparr> off_x = width (totalSize p), off_y = height (totalSize p) \<rparr>
      else \<lparr> off_x = width (totalSize p) - width (windowSizeRef s),
             off_y = height (totalSize p) - height (windowSizeRef s) \<rparr>)"
  using rendered_reachable [OF assms] by (simp add: maxOffset_def split: if_splits)

text \<open>
  Between the first measurement and the frame that follows it, \<open>scroll\<close> clamps with the
  total size and not with the total size minus the measured viewport: in \<open>measured\<close>
  (viewport 80 by 100, total 80 by 400) a wheel event of \<open>(50, 390)\<close> sets the offset to
  \<open>{x: 50, y: 390}\<close>, and in \<open>measuredWide\<close> (viewport 200 by 100) one of \<open>(0, 130)\<close> sets
  it to \<open>{x: 0, y: 130}\<close>.
\<close>

lemma scroll_before_first_frame:
  "run tenRows [Resize 80 100] (initState tenRows) = Some measured
   \<and> windowSizeRef measured = \<lparr> width = 80, height = 100 \<rparr>
   \<and> totalSize tenRows = \<lparr> width = 80, height = 400 \<rparr>
   \<and> maxOffset tenRows measured = \<lparr> off_x = 80, off_y = 400 \<rparr>
   \<and> offsetRef (the (run tenRows [Resize 80 100, Wheel 50 390] (initState tenRows)))
        = \<lparr> off_x = 50, off_y = 390 \<rparr>
   \<and> run tenRows [Resize 200 100] (initState tenRows) = Some measuredWide
   \<and> windowSizeRef measuredWide = \<lparr> width = 200, height = 100 \<rparr>
   \<and> maxOffset tenRows measuredWide = \<lparr> off_x = 80, off_y = 400 \<rparr>
   \<and> offsetRef (the (run tenRows [Resize 200 100, Wheel 0 130] (initState tenRows)))
        = \<lparr> off_x = 0, off_y = 130 \<rparr>"
  by code_simp

text \<open>
  The resize observer is heard only until the component renders again: in \<open>scrolledDown\<close> a
  resize to 80 by 700 changes nothing.
\<close>

lemma resize_after_render:
  "\<not> firstRefs scrolledDown
   \<and> run twelveRows [Resize 80 700] scrolledDown = Some scrolledDown
   \<and> windowSizeRef scrolledDown = \<lparr> width = 80, height = 200 \<rparr>"
  by code_simp

section \<open>C4: the offset after an accepted scroll\<close>




section \<open>C10: the raw delta on an axis with no measured size\<close>

text \<open>
  C10, as stated, has every call clamp the previous offset on an axis whose viewport size
  is 0. With \<open>rows = []\<close> and a saved offset \<open>{x: 5, y: 0}\<close>, before the first measurement, the
  grid fits the viewport on both axes: \<open>scroll\<close> returns at its guard and the offset stays
  at \<open>x = 5\<close>, while the clamp to \<open>[0, maxOffset.x] = [0, 0]\<close> is 0.
\<close>

theorem scroll_unmeasured_axis_counterexample:
  "width (windowSizeRef (initState noRowsStale)) = 0
   \<and> off_x (offsetRef (initState noRowsStale)) = 5
   \<and> off_x (maxOffset noRowsStale (initState noRowsStale)) = 0
   \<and> off_x (offsetRef (scroll noRowsStale True True True 1 1 (initState noRowsStale))) = 5
   \<and> min (off_x (maxOffset noRowsStale (initState noRowsStale)))
         (max 0 (off_x (offsetRef (initState noRowsStale)))) = 0
   \<and> off_x (offsetRef (scroll noRowsStale True True True 1 1 (initState noRowsStale)))
        \<noteq> min (off_x (maxOffset noRowsStale (initState noRowsStale)))
             (max 0 (off_x (offsetRef (initState noRowsStale))))"
  by code_simp

text \<open>
  C10, amended. For every call to \<open>scroll\<close>, on an axis whose measured viewport size is
  zero the raw delta on that axis is ignored: the call does what it does with a delta of 0
  there. The resulting offset component is the previous one, unchanged when the call is a
  no-op, and clamped as \<open>min(maxOffset, max(0, previous))\<close> otherwise; it is that clamp
  whenever the call gets past the fits-in-the-window guard with the three elements
  present. In particular, if the previous offset is already in \<open>[0, maxOffset]\<close> on that
  axis, it is unchanged.
\<close>

theorem scroll_ignores_delta_on_unmeasured_axis:
  fixes deltaX deltaY :: rat
  defines "fits \<equiv> \<lambda>p s. width (totalSize p) \<le> width (windowSizeRef s)
                        \<and> height (totalSize p) \<le> height (windowSizeRef s)"
  shows "(width (windowSizeRef s) = 0 \<longrightarrow>
            scroll p cellsElmnt stickyRowsElmnt stickyColsElmnt deltaX deltaY s
              = scroll p cellsElmnt stickyRowsElmnt stickyColsElmnt 0 deltaY s
          \<and> (off_x (offsetRef (scroll p cellsElmnt stickyRowsElmnt stickyColsElmnt deltaX deltaY s))
                = off_x (offsetRef s)
             \<or> off_x (offsetRef (scroll p cellsElmnt stickyRowsElmnt stickyColsElmnt deltaX deltaY s))
                = min (off_x (maxOffset p s)) (max 0 (off_x (offsetRef s))))
          \<and> (\<not> fits p s \<and> cellsElmnt \<and> stickyRowsElmnt \<and> stickyColsElmnt \<longrightarrow>
               off_x (offsetRef (scroll p cellsElmnt stickyRowsElmnt stickyColsElmnt deltaX deltaY s))
                = min (off_x (maxOffset p s)) (max 0 (off_x (offsetRef s))))
          \<and> (0 \<le> off_x (offsetRef s) \<and> off_x (offsetRef s) \<le> off_x (maxOffset p s) \<longrightarrow>
               off_x (offsetRef (scroll p cellsElmnt stickyRowsElmnt stickyColsElmnt deltaX deltaY s))
                = off_x (offsetRef s)))
       \<and> (height (windowSizeRef s) = 0 \<longrightarrow>
            scroll p cellsElmnt stickyRowsElmnt stickyColsElmnt deltaX deltaY s
              = scroll p cellsElmnt stickyRowsElmnt stickyColsElmnt deltaX 0 s
          \<and> (off_y (offsetRef (scroll p cellsElmnt stickyRowsElmnt stickyColsElmnt deltaX deltaY s))
                = off_y (offsetRef s)
             \<or> off_y (offsetRef (scroll p cellsElmnt stickyRowsElmnt stickyColsElmnt deltaX deltaY s))
                = min (off_y (maxOffset p s)) (max 0 (off_y (offsetRef s))))
          \<and> (\<not> fits p s \<and> cellsElmnt \<and> stickyRowsElmnt \<and> stickyColsElmnt \<longrightarrow>
               off_y (offsetRef (scroll p cellsElmnt stickyRowsElmnt stickyColsElmnt deltaX deltaY s))
                = min (off_y (maxOffset p s)) (max 0 (off_y (offsetRef s))))
          \<and> (0 \<le> off_y (offsetRef s) \<and> off_y (offsetRef s) \<le> off_y (maxOffset p s) \<longrightarrow>
               off_y (offsetRef (scroll p cellsElmnt stickyRowsElmnt stickyColsElmnt deltaX deltaY s))
                = off_y (offsetRef s)))"
proof -
  let ?s1 = "scroll p cellsElmnt stickyRowsElmnt stickyColsElmnt deltaX deltaY s"
  let ?cx = "min (off_x (maxOffset p s)) (max 0 (off_x (offsetRef s)))"
  let ?cy = "min (off_y (maxOffset p s)) (max 0 (off_y (offsetRef s)))"
  have X: "(off_x (offsetRef ?s1) = off_x (offsetRef s) \<or> off_x (offsetRef ?s1) = ?cx)
         \<and> (\<not> fits p s \<and> cellsElmnt \<and> stickyRowsElmnt \<and> stickyColsElmnt \<longrightarrow>
               off_x (offsetRef ?s1) = ?cx)"
    if w0: "width (windowSizeRef s) = 0"
  proof (cases "fits p s")
    case True
    then have "?s1 = s" unfolding fits_def by (rule scroll_fits)
    with True show ?thesis by simp
  next
    case False
    then have nf: "\<not> (width (totalSize p) \<le> width (windowSizeRef s)
         \<and> height (totalSize p) \<le> height (windowSizeRef s))" by (simp add: fits_def)
    show ?thesis
      unfolding scroll_offsetRef [OF nf] setOffset_accepted using w0 by auto
  qed
  have Y: "(off_y (offsetRef ?s1) = off_y (offsetRef s) \<or> off_y (offsetRef ?s1) = ?cy)
         \<and> (\<not> fits p s \<and> cellsElmnt \<and> stickyRowsElmnt \<and> stickyColsElmnt \<longrightarrow>
               off_y (offsetRef ?s1) = ?cy)"
    if h0: "height (windowSizeRef s) = 0"
  proof (cases "fits p s")
    case True
    then have "?s1 = s" unfolding fits_def by (rule scroll_fits)
    with True show ?thesis by simp
  next
    case False
    then have nf: "\<not> (width (totalSize p) \<le> width (windowSizeRef s)
         \<and> height (totalSize p) \<le> height (windowSizeRef s))" by (simp add: fits_def)
    show ?thesis
      unfolding scroll_offsetRef [OF nf] setOffset_accepted using h0 by auto
  qed
  have Xin: "off_x (offsetRef ?s1) = off_x (offsetRef s)"
    if "width (windowSizeRef s) = 0"
       "0 \<le> off_x (offsetRef s) \<and> off_x (offsetRef s) \<le> off_x (maxOffset p s)"
    using X [OF that(1)] that(2) by auto
  have Yin: "off_y (offsetRef ?s1) = off_y (offsetRef s)"
    if "height (windowSizeRef s) = 0"
       "0 \<le> off_y (offsetRef s) \<and> off_y (offsetRef s) \<le> off_y (maxOffset p s)"
    using Y [OF that(1)] that(2) by auto
  show ?thesis
    using X Y Xin Yin scroll_delta_unmeasured_x [of s p] scroll_delta_unmeasured_y [of s p]
    by blast
qed

theorem scroll_ignores_delta_on_unmeasured_axis_witness:
  "width (windowSizeRef narrow) = 0
   \<and> \<not> (width (totalSize tenRows) \<le> width (windowSizeRef narrow)
        \<and> height (totalSize tenRows) \<le> height (windowSizeRef narrow))
   \<and> scroll tenRows True True True 5 10 narrow = scroll tenRows True True True 0 10 narrow
   \<and> off_x (offsetRef (scroll tenRows True True True 5 10 narrow))
       = min (off_x (maxOffset tenRows narrow)) (max 0 (off_x (offsetRef narrow)))
   \<and> off_x (offsetRef narrow) = 0
   \<and> off_x (offsetRef (scroll tenRows True True True 5 10 narrow)) = off_x (offsetRef narrow)"
proof -
  have w0: "width (windowSizeRef narrow) = 0" by code_simp
  have nf: "\<not> (width (totalSize tenRows) \<le> width (windowSizeRef narrow)
        \<and> height (totalSize tenRows) \<le> height (windowSizeRef narrow))" by code_simp
  have x0: "off_x (offsetRef narrow) = 0" by code_simp
  have inr: "0 \<le> off_x (offsetRef narrow)
      \<and> off_x (offsetRef narrow) \<le> off_x (maxOffset tenRows narrow)" by code_simp
  from scroll_ignores_delta_on_unmeasured_axis [of narrow tenRows True True True 5 10]
       w0 nf inr x0
  show ?thesis by blast
qed

section \<open>C2: the range of the offset after \<open>scroll\<close>\<close>




section \<open>C6: the translate offsets\<close>

text \<open>
  C6. The claim is that the translate offsets computed in the frame callback are never
  positive. On the ten rows (80 wide) in a viewport 200 wide, \<open>maxOffset.x\<close> is -120; the
  first wheel event that scrolls down sets \<open>offset.x = min(-120, max(0, 0)) = -120\<close>, and
  the frame computes \<open>translateX = 120 > 0\<close> (the condition under which the source logs
  \<open>ProblemX\<close>).
\<close>

theorem translate_positive_on_fitting_axis:
  "run tenRows [Resize 200 100, AnimationFrame, Wheel 0 40, AnimationFrame] (initState tenRows)
     = Some shifted
   \<and> width (totalSize tenRows) = 80
   \<and> width (windowSizeRef shifted) = 200
   \<and> off_x (maxOffset tenRows shifted) = - 120
   \<and> offsetRef shifted = \<lparr> off_x = - 120, off_y = 40 \<rparr>
   \<and> renderWindowRef shifted = \<lparr> fromRow = 0, toRow = 8, fromCol = 0, toCol = 1 \<rparr>
   \<and> rowsTranslateRef shifted = \<lparr> off_x = 120, off_y = - 40 \<rparr>
   \<and> off_x (rowsTranslateRef shifted)
        = - off_x (offsetRef shifted)
          + or0 (js_at (colOffsets tenRows) (fromCol (renderWindowRef shifted)))
   \<and> 0 < off_x (rowsTranslateRef shifted)"
  by code_simp

text \<open>
  The defect is confined to negative offsets: for an offset that is not negative on an
  axis, the translate offset of that axis is not positive.
\<close>

lemma translate_nonpos:
  fixes sizes :: "rat list"
  assumes nn: "\<forall>v \<in> set sizes. 0 \<le> v"
      and lo: "0 \<le> lo1" "lo1 \<le> max (visibleFrom (calculateOffsets sizes) pos) 0"
      and pos: "0 \<le> pos"
  shows "- pos + or0 (js_at (calculateOffsets sizes) lo1) \<le> 0"
proof (cases "lo1 < int (length sizes)")
  case False
  then show ?thesis using pos by (simp add: js_at_def)
next
  case True
  let ?offs = "calculateOffsets sizes"
  let ?vf = "visibleFrom ?offs pos"
  have vfb: "?vf < int (length sizes)" using visibleFrom_bounds [of ?offs pos] by simp
  have at: "js_at ?offs lo1 = Num (?offs ! nat lo1)"
    using True lo(1) by (simp add: js_at_def)
  have "?offs ! nat lo1 \<le> pos"
  proof (cases "0 \<le> ?vf")
    case True
    with lo have le: "nat lo1 \<le> nat ?vf" by simp
    have n: "nat ?vf < length sizes" using vfb True by linarith
    have "?offs ! nat lo1 \<le> ?offs ! nat ?vf" using calculateOffsets_mono [OF nn le n] .
    also have "\<dots> \<le> pos" using visibleFrom_at [OF True] .
    finally show ?thesis .
  next
    case False
    with lo have "lo1 = 0" by simp
    moreover have "0 < length sizes" using True lo(1) by linarith
    ultimately show ?thesis using pos by (simp add: nth_calculateOffsets)
  qed
  with at show ?thesis by simp
qed

lemma translate_nonpos_after_resolution:
  assumes acc: "fst (setOffset p cellsElmnt stickyRowsElmnt stickyColsElmnt offset force s)"
      and vw: "0 \<le> width (windowSizeRef s)" and vh: "0 \<le> height (windowSizeRef s)"
      and batch: "0 \<le> renderBatchSize p"
      and rh: "\<forall>v \<in> set (rowHeights p). 0 \<le> v"
      and cw: "\<forall>v \<in> set (colWidths p). 0 \<le> v"
  shows "(0 \<le> off_x offset \<longrightarrow>
            off_x (rowsTranslateRef (runFrame p
              (snd (setOffset p cellsElmnt stickyRowsElmnt stickyColsElmnt offset force s)))) \<le> 0)
       \<and> (0 \<le> off_y offset \<longrightarrow>
            off_y (rowsTranslateRef (runFrame p
              (snd (setOffset p cellsElmnt stickyRowsElmnt stickyColsElmnt offset force s)))) \<le> 0)"
proof -
  let ?s1 = "runFrame p (snd (setOffset p cellsElmnt stickyRowsElmnt stickyColsElmnt offset force s))"
  let ?w = "renderWindowRef ?s1"
  have r1: "visibleFrom (rowOffsets p) (off_y offset)
      \<le> visibleTo (rowOffsets p) (numRows p) (off_y offset) (height (windowSizeRef s))"
    using visibleFrom_le_visibleTo [OF vh, of "rowOffsets p" "off_y offset"] by simp
  have r2: "0 \<le> visibleTo (rowOffsets p) (numRows p) (off_y offset) (height (windowSizeRef s))
      \<and> visibleTo (rowOffsets p) (numRows p) (off_y offset) (height (windowSizeRef s))
          \<le> int (numRows p)"
    using visibleTo_bounds [of "rowOffsets p" "off_y offset" "height (windowSizeRef s)"] by simp
  have c1: "visibleFrom (colOffsets p) (off_x offset)
      \<le> visibleTo (colOffsets p) (numCols p) (off_x offset) (width (windowSizeRef s))"
    using visibleFrom_le_visibleTo [OF vw, of "colOffsets p" "off_x offset"] by simp
  have c2: "0 \<le> visibleTo (colOffsets p) (numCols p) (off_x offset) (width (windowSizeRef s))
      \<and> visibleTo (colOffsets p) (numCols p) (off_x offset) (width (windowSizeRef s))
          \<le> int (numCols p)"
    using visibleTo_bounds [of "colOffsets p" "off_x offset" "width (windowSizeRef s)"] by simp
  have R: "0 \<le> fromRow ?w \<and> fromRow ?w \<le> max (visibleFrom (rowOffsets p) (off_y offset)) 0"
    using hysteresis_bounds [OF resolved(1) [OF acc] batch r1] r2 by blast
  have C: "0 \<le> fromCol ?w \<and> fromCol ?w \<le> max (visibleFrom (colOffsets p) (off_x offset)) 0"
    using hysteresis_bounds [OF resolved(2) [OF acc] batch c1] c2 by blast
  have T: "rowsTranslateRef ?s1
           = \<lparr> off_x = - off_x offset + or0 (js_at (colOffsets p) (fromCol ?w)),
               off_y = - off_y offset + or0 (js_at (rowOffsets p) (fromRow ?w)) \<rparr>"
    using resolved(5) [OF acc] .
  have X: "off_x (rowsTranslateRef ?s1) \<le> 0" if "0 \<le> off_x offset"
    using translate_nonpos [OF cw _ _ that, of "fromCol ?w"] C
    by (simp add: T colOffsets_def)
  have Y: "off_y (rowsTranslateRef ?s1) \<le> 0" if "0 \<le> off_y offset"
    using translate_nonpos [OF rh _ _ that, of "fromRow ?w"] R
    by (simp add: T rowOffsets_def)
  from X Y show ?thesis by blast
qed

section \<open>Sticky items\<close>

lemma set_filter_idx:
  "set (filter_idx P xs) = {xs ! j | j. j < length xs \<and> P (xs ! j) j}"
proof -
  have "set (filter_idx P xs) = fst ` {e \<in> set (zip xs [0..<length xs]). P (fst e) (snd e)}"
    by (simp add: filter_idx_def case_prod_beta)
  also have "\<dots> = {xs ! j | j. j < length xs \<and> P (xs ! j) j}"
    by (auto simp: set_zip image_iff) force
  finally show ?thesis .
qed

lemma filter_idx_member:
  assumes "distinct xs" and "i < length xs"
  shows "xs ! i \<in> set (filter_idx P xs) \<longleftrightarrow> P (xs ! i) i"
proof
  assume "xs ! i \<in> set (filter_idx P xs)"
  then obtain j where j: "xs ! i = xs ! j" "j < length xs" "P (xs ! j) j"
    by (auto simp: set_filter_idx)
  with assms have "i = j" by (simp add: nth_eq_iff_index_eq)
  with j show "P (xs ! i) i" by simp
next
  assume "P (xs ! i) i"
  with assms(2) show "xs ! i \<in> set (filter_idx P xs)" by (auto simp: set_filter_idx)
qed

lemma calculateOffsets_Num_loop:
  "k < length sizes \<Longrightarrow>
     fold (\<lambda>i offsets. offsets @ [offsets ! i + map Num sizes ! i]) [0..<k] [Num 0]
       = map (\<lambda>i. Num (sum_list (take i sizes))) [0..<Suc k]"
proof (induction k)
  case 0
  show ?case by simp
next
  case (Suc k)
  let ?f = "\<lambda>i offsets. offsets @ [offsets ! i + map Num sizes ! i]"
  let ?M = "map (\<lambda>i. Num (sum_list (take i sizes))) [0..<Suc k]"
  from Suc have IH: "fold ?f [0..<k] [Num 0] = ?M" by simp
  have nth: "?M ! k = Num (sum_list (take k sizes))"
    by (metis (lifting) add_0 diff_zero lessI nth_map_upt)
  have step: "Num (sum_list (take k sizes)) + map Num sizes ! k
      = Num (sum_list (take (Suc k) sizes))"
    using Suc.prems by (simp add: take_Suc_conv_app_nth)
  have "fold ?f [0..<Suc k] [Num 0] = fold ?f [0..<k] [Num 0] @ [fold ?f [0..<k] [Num 0] ! k + map Num sizes ! k]"
    by simp
  also have "\<dots> = ?M @ [?M ! k + map Num sizes ! k]"
    by (simp only: IH)
  also have "\<dots> = ?M @ [Num (sum_list (take (Suc k) sizes))]"
    by (simp only: nth step)
  finally have *: "fold ?f [0..<Suc k] [Num 0] = ?M @ [Num (sum_list (take (Suc k) sizes))]" .
  have "map (\<lambda>i. Num (sum_list (take i sizes))) [0..<Suc (Suc k)]
      = ?M @ [Num (sum_list (take (Suc k) sizes))]"
    by (subst upt_Suc_append [of 0 "Suc k"]) simp_all
  with * show ?case by (simp only:)
qed

lemma calculateOffsets_Num:
  "calculateOffsets (map Num sizes) = map (\<lambda>i. Num (sum_list (take i sizes))) [0..<length sizes]"
proof (cases "sizes = []")
  case True
  then show ?thesis by (simp add: calculateOffsets_def)
next
  case False
  then have "length sizes - 1 < length sizes" by simp
  from calculateOffsets_Num_loop [OF this] False show ?thesis
    by (simp add: calculateOffsets_def zero_jsnum_def)
qed

lemma nth_calculateOffsets_Num:
  "i < length sizes \<Longrightarrow> calculateOffsets (map Num sizes) ! i = Num (sum_list (take i sizes))"
  by (simp add: calculateOffsets_Num)

lemma sticky_offsets_in_range:
  assumes "\<forall>r \<in> set sticky. 0 \<le> r \<and> r < int (length sizes)" and "i < length sticky"
  shows "calculateOffsets (map (\<lambda>r. js_at sizes r) sticky) ! i
       = Num (sum_list (map (\<lambda>r. sizes ! nat r) (take i sticky)))"
proof -
  have eq: "map (\<lambda>r. js_at sizes r) sticky = map Num (map (\<lambda>r. sizes ! nat r) sticky)"
    using assms(1) by (simp add: js_at_def)
  have "i < length (map (\<lambda>r. sizes ! nat r) sticky)" using assms(2) by simp
  then have "calculateOffsets (map Num (map (\<lambda>r. sizes ! nat r) sticky)) ! i
      = Num (sum_list (take i (map (\<lambda>r. sizes ! nat r) sticky)))"
    by (rule nth_calculateOffsets_Num)
  then show ?thesis by (simp only: eq take_map)
qed

lemma stuck_test_in_range:
  fixes pos :: rat
  assumes inr: "\<forall>r \<in> set sticky. 0 \<le> r \<and> r < int (length sizes)"
      and i: "i < length sticky" and len: "length offsets = length sizes"
  shows "js_lt (js_at offsets (sticky ! i)
                 - calculateOffsets (map (\<lambda>r. js_at sizes r) sticky) ! i) (Num pos)
     \<longleftrightarrow> offsets ! nat (sticky ! i)
           - sum_list (map (\<lambda>r. sizes ! nat r) (take i sticky)) < pos"
proof -
  from inr i have "0 \<le> sticky ! i \<and> sticky ! i < int (length sizes)" by simp
  with len have "js_at offsets (sticky ! i) = Num (offsets ! nat (sticky ! i))"
    by (simp add: js_at_def)
  then show ?thesis by (simp add: sticky_offsets_in_range [OF inr i])
qed

lemma sorted_sticky [simp]:
  "set (sortedStickyRows p) = set (stickyRows p)"
  "distinct (sortedStickyRows p) = distinct (stickyRows p)"
  "length (sortedStickyRows p) = length (stickyRows p)"
  "set (sortedStickyCols p) = set (stickyCols p)"
  "distinct (sortedStickyCols p) = distinct (stickyCols p)"
  "length (sortedStickyCols p) = length (stickyCols p)"
  by (simp_all add: sortedStickyRows_def sortedStickyCols_def)

section \<open>C5: membership of the stuck set\<close>

text \<open>
  C5, as stated, has a sticky row stuck as soon as \<open>offset.y\<close> reaches its natural offset
  minus the thickness of the sticky rows before it. In \<open>atRowOne\<close> row 1 is sticky,
  \<open>rowOffsets[1] = 40\<close>, no sticky row comes before it and \<open>offset.y = 40\<close>: the stated
  condition \<open>40 \<ge> 40 - 0\<close> holds, and the stuck set is empty.
\<close>

theorem stuck_at_equality_counterexample:
  "run stickyGrid [Resize 80 100, AnimationFrame, Wheel 0 40, AnimationFrame]
     (initState stickyGrid) = Some atRowOne
   \<and> sortedStickyRows stickyGrid = [1]
   \<and> rowOffsets stickyGrid ! 1 = 40
   \<and> stickyRowOffsets stickyGrid = [Num 0]
   \<and> offsetRef atRowOne = \<lparr> off_x = 0, off_y = 40 \<rparr>
   \<and> off_y (offsetRef atRowOne) \<ge> rowOffsets stickyGrid ! 1 - 0
   \<and> stuckRowsRef atRowOne = []
   \<and> 1 \<notin> set (stuckRowsRef atRowOne)"
  by code_simp

text \<open>
  C5, amended. On every offset change (an accepted \<open>setOffset\<close> and its frame), with
  sticky indices that are distinct and within the grid, the sticky row \<open>r\<close> at sorted
  position \<open>i\<close> is a member of the stuck set exactly when
  \<open>offset.y > rowOffsets[r] - stickyRowOffsets[i]\<close>, strictly, where \<open>stickyRowOffsets[i]\<close> is
  the sum of the heights of the sticky rows before it in sort order; symmetrically for
  sticky columns with \<open>offset.x\<close>.
\<close>

theorem stuck_membership:
  assumes acc: "fst (setOffset p cellsElmnt stickyRowsElmnt stickyColsElmnt offset force s)"
      and dr: "distinct (stickyRows p)"
      and dc: "distinct (stickyCols p)"
      and ir: "\<forall>r \<in> set (stickyRows p). 0 \<le> r \<and> r < int (numRows p)"
      and ic: "\<forall>c \<in> set (stickyCols p). 0 \<le> c \<and> c < int (numCols p)"
  shows "(\<forall>i < length (sortedStickyRows p).
            stickyRowOffsets p ! i
              = Num (sum_list (map (\<lambda>r. rowHeights p ! nat r) (take i (sortedStickyRows p))))
          \<and> (sortedStickyRows p ! i \<in> set (stuckRowsRef (runFrame p
                (snd (setOffset p cellsElmnt stickyRowsElmnt stickyColsElmnt offset force s))))
              \<longleftrightarrow> off_y offset > rowOffsets p ! nat (sortedStickyRows p ! i)
                    - sum_list (map (\<lambda>r. rowHeights p ! nat r) (take i (sortedStickyRows p)))))
       \<and> (\<forall>i < length (sortedStickyCols p).
            stickyColOffsets p ! i
              = Num (sum_list (map (\<lambda>c. colWidths p ! nat c) (take i (sortedStickyCols p))))
          \<and> (sortedStickyCols p ! i \<in> set (stuckColsRef (runFrame p
                (snd (setOffset p cellsElmnt stickyRowsElmnt stickyColsElmnt offset force s))))
              \<longleftrightarrow> off_x offset > colOffsets p ! nat (sortedStickyCols p ! i)
                    - sum_list (map (\<lambda>c. colWidths p ! nat c) (take i (sortedStickyCols p)))))"
proof -
  let ?s1 = "runFrame p (snd (setOffset p cellsElmnt stickyRowsElmnt stickyColsElmnt offset force s))"
  have ir': "\<forall>r \<in> set (sortedStickyRows p). 0 \<le> r \<and> r < int (length (rowHeights p))"
    using ir by simp
  have ic': "\<forall>c \<in> set (sortedStickyCols p). 0 \<le> c \<and> c < int (length (colWidths p))"
    using ic by simp
  have dr': "distinct (sortedStickyRows p)" using dr by simp
  have dc': "distinct (sortedStickyCols p)" using dc by simp
  have R: "stickyRowOffsets p ! i
              = Num (sum_list (map (\<lambda>r. rowHeights p ! nat r) (take i (sortedStickyRows p))))
          \<and> (sortedStickyRows p ! i \<in> set (stuckRowsRef ?s1)
              \<longleftrightarrow> off_y offset > rowOffsets p ! nat (sortedStickyRows p ! i)
                    - sum_list (map (\<lambda>r. rowHeights p ! nat r) (take i (sortedStickyRows p))))"
    if i: "i < length (sortedStickyRows p)" for i
  proof -
    have "sortedStickyRows p ! i \<in> set (stuckRowsRef ?s1)
        \<longleftrightarrow> js_lt (js_at (rowOffsets p) (sortedStickyRows p ! i) - stickyRowOffsets p ! i)
              (Num (off_y offset))"
      unfolding resolved(3) [OF acc] by (rule filter_idx_member [OF dr' i])
    also have "\<dots> \<longleftrightarrow> rowOffsets p ! nat (sortedStickyRows p ! i)
           - sum_list (map (\<lambda>r. rowHeights p ! nat r) (take i (sortedStickyRows p)))
             < off_y offset"
      unfolding stickyRowOffsets_def
      by (rule stuck_test_in_range [OF ir' i]) simp
    finally show ?thesis
      using sticky_offsets_in_range [OF ir' i] by (simp add: stickyRowOffsets_def)
  qed
  have C: "stickyColOffsets p ! i
              = Num (sum_list (map (\<lambda>c. colWidths p ! nat c) (take i (sortedStickyCols p))))
          \<and> (sortedStickyCols p ! i \<in> set (stuckColsRef ?s1)
              \<longleftrightarrow> off_x offset > colOffsets p ! nat (sortedStickyCols p ! i)
                    - sum_list (map (\<lambda>c. colWidths p ! nat c) (take i (sortedStickyCols p))))"
    if i: "i < length (sortedStickyCols p)" for i
  proof -
    have "sortedStickyCols p ! i \<in> set (stuckColsRef ?s1)
        \<longleftrightarrow> js_lt (js_at (colOffsets p) (sortedStickyCols p ! i) - stickyColOffsets p ! i)
              (Num (off_x offset))"
      unfolding resolved(4) [OF acc] by (rule filter_idx_member [OF dc' i])
    also have "\<dots> \<longleftrightarrow> colOffsets p ! nat (sortedStickyCols p ! i)
           - sum_list (map (\<lambda>c. colWidths p ! nat c) (take i (sortedStickyCols p)))
             < off_x offset"
      unfolding stickyColOffsets_def
      by (rule stuck_test_in_range [OF ic' i]) simp
    finally show ?thesis
      using sticky_offsets_in_range [OF ic' i] by (simp add: stickyColOffsets_def)
  qed
  from R C show ?thesis by blast
qed

theorem stuck_membership_witness:
  "fst (setOffset stickyGrid True True True \<lparr> off_x = 0, off_y = 41 \<rparr> False atRowOne)
   \<and> stickyRows stickyGrid = [1] \<and> stickyCols stickyGrid = []
   \<and> numRows stickyGrid = 10
   \<and> sortedStickyRows stickyGrid ! 0 = 1
   \<and> rowOffsets stickyGrid ! 1 = 40
   \<and> 1 \<in> set (stuckRowsRef (runFrame stickyGrid
        (snd (setOffset stickyGrid True True True \<lparr> off_x = 0, off_y = 41 \<rparr> False atRowOne))))"
proof -
  let ?o = "\<lparr> off_x = 0, off_y = 41 \<rparr>"
  have acc: "fst (setOffset stickyGrid True True True ?o False atRowOne)" by code_simp
  have sr: "stickyRows stickyGrid = [1]" by code_simp
  have sc: "stickyCols stickyGrid = []" by code_simp
  have n: "numRows stickyGrid = 10" by code_simp
  have ss: "sortedStickyRows stickyGrid = [1]" by code_simp
  have ro: "rowOffsets stickyGrid ! 1 = 40" by code_simp
  have dr: "distinct (stickyRows stickyGrid)" by (simp add: sr)
  have dc: "distinct (stickyCols stickyGrid)" by (simp add: sc)
  have ir: "\<forall>r \<in> set (stickyRows stickyGrid). 0 \<le> r \<and> r < int (numRows stickyGrid)"
    by (simp add: sr n)
  have ic: "\<forall>c \<in> set (stickyCols stickyGrid). 0 \<le> c \<and> c < int (numCols stickyGrid)"
    by (simp add: sc)
  have ro': "rowOffsets stickyGrid ! Suc 0 = 40" by code_simp
  from stuck_membership [OF acc dr dc ir ic]
  have "1 \<in> set (stuckRowsRef (runFrame stickyGrid
        (snd (setOffset stickyGrid True True True ?o False atRowOne))))"
    by (simp add: ss ro')
  with acc sr sc n ss ro show ?thesis by simp
qed

section \<open>Runs and reachable states\<close>

lemma run_reachable_from:
  "reachable p s \<Longrightarrow> run p es s = Some s1 \<Longrightarrow> reachable p s1"
proof (induction es arbitrary: s)
  case Nil
  then show ?case by simp
next
  case (Cons e es)
  from Cons.prems(2) obtain s2 where h: "handle p e s = Some s2" and r: "run p es s2 = Some s1"
    by (auto split: option.splits)
  from Cons.prems(1) h have "reachable p s2" by (rule reachable.step)
  from Cons.IH [OF this r] show ?case .
qed

lemma run_reachable: "run p es (initState p) = Some s \<Longrightarrow> reachable p s"
  using reachable.init by (rule run_reachable_from)

section \<open>The grid without rows\<close>

lemma empty_tables:
  assumes "rows p = []"
  shows "numRows p = 0" "numCols p = 0" "rowHeights p = []" "colWidths p = []"
        "rowOffsets p = []" "colOffsets p = []"
        "totalSize p = \<lparr> width = 0, height = 0 \<rparr>"
proof -
  show n: "numRows p = 0" and m: "numCols p = 0"
    using assms by (simp_all add: numRows_def numCols_def)
  show h: "rowHeights p = []" using n length_rowHeights [of p] by (simp del: length_rowHeights)
  show w: "colWidths p = []" using m length_colWidths [of p] by (simp del: length_colWidths)
  show "rowOffsets p = []" using h by (simp add: rowOffsets_def calculateOffsets_def)
  show "colOffsets p = []" using w by (simp add: colOffsets_def calculateOffsets_def)
  show "totalSize p = \<lparr> width = 0, height = 0 \<rparr>" using n m by (simp add: totalSize_def)
qed

lemma visibleFrom_Nil [simp]: "visibleFrom [] pos = - 1"
  by (simp add: visibleFrom_def walkBack.simps [of "[]" pos "- 1"] js_at_def)

lemma visibleTo_Nil [simp]: "visibleTo [] 0 pos extent = 0"
  by (simp add: visibleTo_def)

lemma hysteresis_empty:
  "0 \<le> batch \<Longrightarrow> hysteresis batch 0 (- 1) 0 (0, 0) = (0, 0)"
  by (simp add: hysteresis_def)

lemma filter_idx_never: "(\<And>v i. \<not> P v i) \<Longrightarrow> filter_idx P xs = []"
  by (simp add: filter_idx_def)

lemma js_lt_NaN_minus [simp]: "\<not> js_lt (js_at [] r - v) w"
  by (cases v; cases w) (simp_all add: js_at_def)

lemma empty_setOffset:
  assumes e: "rows p = []" and b: "0 \<le> renderBatchSize p"
      and inv: "emptyGridInv p s"
  shows "emptyGridInv p (snd (setOffset p cellsElmnt stickyRowsElmnt stickyColsElmnt
           (offsetRef s) force s))"
proof (cases "fst (setOffset p cellsElmnt stickyRowsElmnt stickyColsElmnt (offsetRef s) force s)")
  case False
  from setOffset_rejected [OF False] inv show ?thesis by simp
next
  case True
  from inv have w: "renderWindowRef s = \<lparr> fromRow = 0, toRow = 0, fromCol = 0, toCol = 0 \<rparr>"
    by (simp add: emptyGridInv_def)
  from setOffset_frame [OF True] obtain f where
    s: "snd (setOffset p cellsElmnt stickyRowsElmnt stickyColsElmnt (offsetRef s) force s)
            = s\<lparr> offsetRef := offsetRef s, rafPidRef := Some f \<rparr>"
    and rw: "(f_fromRow f, f_toRow f) = (0, 0)"
    and cl: "(f_fromCol f, f_toCol f) = (0, 0)"
    and st: "f_stuckRows f = []" "f_stuckCols f = []"
    by (auto simp: empty_tables [OF e] w hysteresis_empty [OF b] filter_idx_never)
  from inv rw cl st
  have "emptyGridInv p (s\<lparr> offsetRef := offsetRef s, rafPidRef := Some f \<rparr>)"
    by (simp add: emptyGridInv_def)
  then show ?thesis by (simp only: s)
qed

lemma empty_reflow:
  assumes e: "rows p = []" and b: "0 \<le> renderBatchSize p"
      and inv: "emptyGridInv p s" and w: "0 \<le> w" and h: "0 \<le> h"
  shows "emptyGridInv p (reflow p rootElmnt cellsElmnt stickyRowsElmnt stickyColsElmnt w h s)"
proof (cases "rootElmnt \<and> cellsElmnt")
  case False
  with inv show ?thesis by (auto simp: reflow_def)
next
  case True
  let ?s1 = "s\<lparr> windowSizeRef := \<lparr> width = w, height = h \<rparr> \<rparr>"
  from inv w h have "emptyGridInv p ?s1" by (simp add: emptyGridInv_def)
  from empty_setOffset [OF e b this, of cellsElmnt stickyRowsElmnt stickyColsElmnt True] True
  show ?thesis by (simp add: reflow_def Let_def)
qed

lemma empty_scroll:
  assumes e: "rows p = []" and inv: "emptyGridInv p s"
  shows "scroll p cellsElmnt stickyRowsElmnt stickyColsElmnt deltaX deltaY s = s"
  using inv by (intro scroll_fits) (simp add: empty_tables [OF e] emptyGridInv_def)

lemma empty_runFrame:
  assumes inv: "emptyGridInv p s"
  shows "emptyGridInv p (runFrame p s)"
proof (cases "rafPidRef s")
  case None
  with inv show ?thesis by (simp add: runFrame_def)
next
  case (Some f)
  with inv show ?thesis by (auto simp: runFrame_def emptyGridInv_def Let_def)
qed

lemma emptyGridInv_touch [simp]:
  "emptyGridInv p (s\<lparr> touchInfoRef := ti \<rparr>) = emptyGridInv p s"
  "emptyGridInv p (s\<lparr> intervals := iv \<rparr>) = emptyGridInv p s"
  "emptyGridInv p (s\<lparr> nextPid := n \<rparr>) = emptyGridInv p s"
  "emptyGridInv p (s\<lparr> scrollPidRef := t \<rparr>) = emptyGridInv p s"
  "emptyGridInv p (rerender s) = emptyGridInv p s"
  by (simp_all add: emptyGridInv_def)

lemma empty_handle:
  assumes e: "rows p = []" and b: "0 \<le> renderBatchSize p"
      and inv: "emptyGridInv p s" and h: "handle p ev s = Some s1"
  shows "emptyGridInv p s1"
proof (cases ev)
  case (Resize w h')
  with h inv show ?thesis by (auto simp: empty_reflow [OF e b] split: if_splits)
next
  case (Wheel dx dy)
  with h inv show ?thesis by (auto simp: onWheel_def empty_scroll [OF e])
next
  case (TouchStart t x y)
  with h inv show ?thesis by (auto simp: onTouchStart_def Let_def split: option.splits)
next
  case (TouchMove t x y)
  with h inv show ?thesis by (auto simp: onTouchMove_def Let_def empty_scroll [OF e])
next
  case (TouchEnd t)
  with h inv show ?thesis by (auto simp: onTouchEnd_def Let_def split: if_splits)
next
  case (IntervalTick pid)
  with h inv show ?thesis
    by (auto simp: tick_def Let_def empty_scroll [OF e] split_beta split: option.splits)
next
  case AnimationFrame
  with h inv show ?thesis by (auto simp: empty_runFrame)
next
  case ScrollStopTimer
  with h inv show ?thesis by auto
next
  case Render
  with h inv show ?thesis by auto
qed

lemma empty_reachable:
  assumes "reachable p s" and e: "rows p = []" and b: "0 \<le> renderBatchSize p"
  shows "emptyGridInv p s"
  using assms(1)
proof (induction rule: reachable.induct)
  case init
  show ?case by (simp add: emptyGridInv_def initState_def)
next
  case (step s ev s1)
  from empty_handle [OF e b step.IH step.hyps(2)] show ?case .
qed

lemma empty_render:
  assumes "emptyGridInv p s"
  shows "render p s = Inr []"
  using assms by (simp add: render_def emptyGridInv_def Let_def)

section \<open>C8: \<open>rows = []\<close> is a valid state\<close>

text \<open>
  C8. With \<open>rows = []\<close> (and a batch size that is not negative), in every state the
  component reaches from its mount through resize, wheel, touch, interval, frame and
  timer events: the row and column tables are empty, every \<open>scroll\<close> call leaves the state,
  and so the offset, as it is, the offset is the initial one (\<open>{x: 0, y: 0}\<close> by default),
  the render window is \<open>{fromRow: 0, toRow: 0, fromCol: 0, toCol: 0}\<close>, and a render pass
  reads no cell and throws no exception.
\<close>

theorem empty_rows_valid_state:
  assumes "rows p = []" and "0 \<le> renderBatchSize p" and "reachable p s"
  shows "rowHeights p = [] \<and> colWidths p = [] \<and> rowOffsets p = [] \<and> colOffsets p = []
       \<and> scroll p True True True deltaX deltaY s = s
       \<and> offsetRef s = initOffset p
       \<and> renderWindowRef s = \<lparr> fromRow = 0, toRow = 0, fromCol = 0, toCol = 0 \<rparr>
       \<and> render p s = Inr []"
proof -
  have inv: "emptyGridInv p s" using empty_reachable [OF assms(3) assms(1) assms(2)] .
  then have "offsetRef s = initOffset p"
    and "renderWindowRef s = \<lparr> fromRow = 0, toRow = 0, fromCol = 0, toCol = 0 \<rparr>"
    by (simp_all add: emptyGridInv_def)
  with empty_tables [OF assms(1)] empty_scroll [OF assms(1) inv] empty_render [OF inv]
  show ?thesis by simp
qed

theorem empty_rows_valid_state_witness:
  "rows noRows = [] \<and> renderBatchSize noRows = 5
   \<and> run noRows [Resize 200 100, AnimationFrame, Wheel 3 40, TouchStart 0 100 7,
        TouchMove 16 80 7, TouchEnd 32, IntervalTick 1, AnimationFrame] (initState noRows)
      \<noteq> None
   \<and> rowOffsets noRows = [] \<and> colOffsets noRows = []
   \<and> offsetRef (the (run noRows [Resize 200 100, AnimationFrame, Wheel 3 40, TouchStart 0 100 7,
        TouchMove 16 80 7, TouchEnd 32, IntervalTick 1, AnimationFrame] (initState noRows)))
      = \<lparr> off_x = 0, off_y = 0 \<rparr>
   \<and> renderWindowRef (the (run noRows [Resize 200 100, AnimationFrame, Wheel 3 40,
        TouchStart 0 100 7, TouchMove 16 80 7, TouchEnd 32, IntervalTick 1, AnimationFrame]
        (initState noRows)))
      = \<lparr> fromRow = 0, toRow = 0, fromCol = 0, toCol = 0 \<rparr>
   \<and> render noRows (the (run noRows [Resize 200 100, AnimationFrame, Wheel 3 40,
        TouchStart 0 100 7, TouchMove 16 80 7, TouchEnd 32, IntervalTick 1, AnimationFrame]
        (initState noRows)))
      = Inr []"
proof -
  let ?es = "[Resize 200 100, AnimationFrame, Wheel 3 40, TouchStart 0 100 7,
        TouchMove 16 80 7, TouchEnd 32, IntervalTick 1, AnimationFrame]"
  have e: "rows noRows = []" by code_simp
  have b5: "renderBatchSize noRows = 5" by code_simp
  then have b: "0 \<le> renderBatchSize noRows" by simp
  have i0: "initOffset noRows = \<lparr> off_x = 0, off_y = 0 \<rparr>" by code_simp
  have r: "run noRows ?es (initState noRows) \<noteq> None" by code_simp
  then have "run noRows ?es (initState noRows) = Some (the (run noRows ?es (initState noRows)))"
    by simp
  then have "reachable noRows (the (run noRows ?es (initState noRows)))"
    by (rule run_reachable)
  from empty_rows_valid_state [OF e b this] e b5 r i0 show ?thesis by simp
qed

section \<open>Touch momentum\<close>

lemma setOffset_touch:
  "touchInfoRef (snd (setOffset p cellsElmnt stickyRowsElmnt stickyColsElmnt offset force s))
     = touchInfoRef s"
  "intervals (snd (setOffset p cellsElmnt stickyRowsElmnt stickyColsElmnt offset force s))
     = intervals s"
  "nextPid (snd (setOffset p cellsElmnt stickyRowsElmnt stickyColsElmnt offset force s))
     = nextPid s"
proof -
  let ?r = "setOffset p cellsElmnt stickyRowsElmnt stickyColsElmnt offset force s"
  have "touchInfoRef (snd ?r) = touchInfoRef s \<and> intervals (snd ?r) = intervals s
      \<and> nextPid (snd ?r) = nextPid s"
  proof (cases "fst ?r")
    case True
    from setOffset_frame [OF True] obtain f where
      "snd ?r = s\<lparr> offsetRef := offset, rafPidRef := Some f \<rparr>" by blast
    then show ?thesis by simp
  next
    case False
    from setOffset_rejected [OF False] show ?thesis by simp
  qed
  then show "touchInfoRef (snd ?r) = touchInfoRef s" "intervals (snd ?r) = intervals s"
    "nextPid (snd ?r) = nextPid s" by simp_all
qed

lemma scroll_touch [simp]:
  "touchInfoRef (scroll p cellsElmnt stickyRowsElmnt stickyColsElmnt deltaX deltaY s)
     = touchInfoRef s"
  "intervals (scroll p cellsElmnt stickyRowsElmnt stickyColsElmnt deltaX deltaY s)
     = intervals s"
  "nextPid (scroll p cellsElmnt stickyRowsElmnt stickyColsElmnt deltaX deltaY s)
     = nextPid s"
  by (simp_all add: scroll_def Let_def split_beta setOffset_touch)

lemma map_of_clearInterval [simp]: "map_of (clearInterval pid ivs) pid = None"
  by (induction ivs) (auto simp: clearInterval_def)

lemma map_of_replace:
  "map_of ivs pid = Some u \<Longrightarrow>
     map_of (map (\<lambda>e. if fst e = pid then (pid, v) else e) ivs) pid = Some v"
  by (induction ivs) (auto split: if_splits)

text \<open>What one firing does to a running interval, and the delta it scrolls by.\<close>

lemma tick_running:
  assumes "map_of (intervals s) pid = Some (speedX, speedY)"
  shows "tick p cellsElmnt stickyRowsElmnt stickyColsElmnt pid s
       = (let s1 = scroll p cellsElmnt stickyRowsElmnt stickyColsElmnt
                     (fst (tickDelta (speedX, speedY))) (snd (tickDelta (speedX, speedY))) s
          in if \<bar>speedX * (95 / 100)\<bar> + \<bar>speedY * (95 / 100)\<bar> < 1 / 100
             then s1\<lparr> intervals := clearInterval pid (intervals s1),
                       touchInfoRef := (touchInfoRef s1)\<lparr> ti_pid := None \<rparr> \<rparr>
             else s1\<lparr> intervals :=
                         map (\<lambda>e. if fst e = pid
                                   then (pid, speedX * (95 / 100), speedY * (95 / 100)) else e)
                           (intervals s1) \<rparr>)"
  using assms by (simp add: tick_def Let_def split_beta)

lemma tick_continues:
  assumes "map_of (intervals s) pid = Some (speedX, speedY)"
      and "\<not> \<bar>speedX * (95 / 100)\<bar> + \<bar>speedY * (95 / 100)\<bar> < 1 / 100"
  shows "map_of (intervals (tick p cellsElmnt stickyRowsElmnt stickyColsElmnt pid s)) pid
           = Some (speedX * (95 / 100), speedY * (95 / 100))"
    and "offsetRef (tick p cellsElmnt stickyRowsElmnt stickyColsElmnt pid s)
           = offsetRef (scroll p cellsElmnt stickyRowsElmnt stickyColsElmnt
                          (speedX * 16) (speedY * 16) s)"
  using assms by (simp_all add: tick_running Let_def tickDelta_def map_of_replace)

lemma tick_stops:
  assumes "map_of (intervals s) pid = Some (speedX, speedY)"
      and "\<bar>speedX * (95 / 100)\<bar> + \<bar>speedY * (95 / 100)\<bar> < 1 / 100"
  shows "map_of (intervals (tick p cellsElmnt stickyRowsElmnt stickyColsElmnt pid s)) pid = None"
    and "ti_pid (touchInfoRef (tick p cellsElmnt stickyRowsElmnt stickyColsElmnt pid s)) = None"
    and "offsetRef (tick p cellsElmnt stickyRowsElmnt stickyColsElmnt pid s)
           = offsetRef (scroll p cellsElmnt stickyRowsElmnt stickyColsElmnt
                          (speedX * 16) (speedY * 16) s)"
  using assms by (simp_all add: tick_running Let_def tickDelta_def)

text \<open>While the decayed speed stays at or above the threshold, the interval keeps running
  and its speed after \<open>k\<close> firings is the release speed times \<open>0.95 ^ k\<close>.\<close>

lemma ticks_running:
  assumes "map_of (intervals s) pid = Some (speedX, speedY)"
      and "\<forall>j. 1 \<le> j \<and> j \<le> k \<longrightarrow> 1 / 100 \<le> (\<bar>speedX\<bar> + \<bar>speedY\<bar>) * (95 / 100) ^ j"
  shows "map_of (intervals ((tick p cellsElmnt stickyRowsElmnt stickyColsElmnt pid ^^ k) s)) pid
       = Some (speedX * (95 / 100) ^ k, speedY * (95 / 100) ^ k)"
  using assms(2)
proof (induction k)
  case 0
  show ?case using assms(1) by simp
next
  case (Suc k)
  let ?t = "tick p cellsElmnt stickyRowsElmnt stickyColsElmnt pid"
  from Suc have IH: "map_of (intervals ((?t ^^ k) s)) pid
       = Some (speedX * (95 / 100) ^ k, speedY * (95 / 100) ^ k)" by simp
  have "1 \<le> Suc k \<and> Suc k \<le> Suc k" by simp
  with Suc.prems have "1 / 100 \<le> (\<bar>speedX\<bar> + \<bar>speedY\<bar>) * (95 / 100) ^ Suc k"
    by blast
  also have "(\<bar>speedX\<bar> + \<bar>speedY\<bar>) * (95 / 100) ^ Suc k
      = \<bar>speedX * (95 / 100) ^ k * (95 / 100)\<bar> + \<bar>speedY * (95 / 100) ^ k * (95 / 100)\<bar>"
    by (simp add: abs_mult algebra_simps)
  finally have "\<not> \<bar>speedX * (95 / 100) ^ k * (95 / 100)\<bar>
      + \<bar>speedY * (95 / 100) ^ k * (95 / 100)\<bar> < 1 / 100" by simp
  from tick_continues(1) [OF IH this, of p cellsElmnt stickyRowsElmnt stickyColsElmnt]
  show ?case by (simp add: mult_ac)
qed

lemma tick_offset:
  assumes "map_of (intervals s) pid = Some (speedX, speedY)"
  shows "offsetRef (tick p cellsElmnt stickyRowsElmnt stickyColsElmnt pid s)
           = offsetRef (scroll p cellsElmnt stickyRowsElmnt stickyColsElmnt
                          (speedX * 16) (speedY * 16) s)"
  using assms by (simp add: tick_running Let_def tickDelta_def)

lemma tick_stops_iff:
  assumes "map_of (intervals s) pid = Some (speedX, speedY)"
  shows "map_of (intervals (tick p cellsElmnt stickyRowsElmnt stickyColsElmnt pid s)) pid = None
     \<longleftrightarrow> \<bar>speedX * (95 / 100)\<bar> + \<bar>speedY * (95 / 100)\<bar> < 1 / 100"
  using tick_stops(1) [OF assms, of p cellsElmnt stickyRowsElmnt stickyColsElmnt]
        tick_continues(1) [OF assms, of p cellsElmnt stickyRowsElmnt stickyColsElmnt]
  by (cases "\<bar>speedX * (95 / 100)\<bar> + \<bar>speedY * (95 / 100)\<bar> < 1 / 100") simp_all

lemma decay_94: "(1 / 100 :: rat) \<le> 5 / 4 * (95 / 100) ^ 94"
  by (simp add: power_divide)

lemma decay_95: "(5 / 4 :: rat) * (95 / 100) ^ 95 < 1 / 100"
  by (simp add: power_divide)

lemma decay_upto_94:
  assumes "j \<le> 94"
  shows "(1 / 100 :: rat) \<le> 5 / 4 * (95 / 100) ^ j"
proof -
  have "((95 / 100) :: rat) ^ 94 \<le> (95 / 100) ^ j"
    using assms by (intro power_decreasing) simp_all
  then have "(5 / 4 :: rat) * (95 / 100) ^ 94 \<le> 5 / 4 * (95 / 100) ^ j" by simp
  with decay_94 show ?thesis by (rule order_trans)
qed

lemma gesture:
  fixes y0 :: rat
  shows "\<exists>s3. run p [TouchStart 0 100 y0, TouchMove 16 80 y0, TouchEnd 32] s0 = Some s3
       \<and> ti_t (touchInfoRef s3) = 16 \<and> ti_dx (touchInfoRef s3) = 100 - 80
       \<and> ti_dy (touchInfoRef s3) = 0
       \<and> ti_pid (touchInfoRef s3) = Some (nextPid s0)
       \<and> map_of (intervals s3) (nextPid s0) = Some ((100 - 80) / (32 - 16), 0)"
  by (simp add: onTouchStart_def onTouchMove_def onTouchEnd_def Let_def split: option.splits)

section \<open>C7: the momentum of a touch gesture\<close>

text \<open>
  C7. From any state of any grid, the gesture start (t = 0, x = 100), move (t = 16,
  x = 80), end (t = 32), with no movement on y, starts an interval whose release speed is the
  last displacement over the time since the previous point, \<open>(100 - 80) / (32 - 16) = 20 / 16\<close>
  on x. Its first firing scrolls by \<open>(20 / 16) * 16 = 20\<close> on x, and each later firing by the
  previous delta times 0.95 (20, 19, 18.05, ...): the firing number \<open>k + 1\<close> scrolls by
  \<open>20 * 0.95 ^ k\<close>. A firing clears the interval exactly when the sum of the absolute
  decayed speeds of the two axes is below 0.01; in this gesture that is the 95th firing.
  Numbers are exact rationals here; the rounding of doubles is not modelled.
\<close>

theorem touch_momentum_decay:
  fixes p :: "'c Props" and s0 :: state and y0 :: rat
  shows "run p [TouchStart 0 100 y0, TouchMove 16 80 y0, TouchEnd 32] s0 \<noteq> None
    \<and> (let s3 = the (run p [TouchStart 0 100 y0, TouchMove 16 80 y0, TouchEnd 32] s0);
            pid = nextPid s0;
            fire = tick p True True True pid
        in ti_dx (touchInfoRef s3) = 100 - 80
         \<and> ti_pid (touchInfoRef s3) = Some pid
         \<and> map_of (intervals s3) pid = Some (20 / 16, 0)
         \<and> tickDelta (20 / 16, 0) = (20, 0)
         \<and> (\<forall>k < 95.
               map_of (intervals ((fire ^^ k) s3)) pid = Some (20 / 16 * (95 / 100) ^ k, 0)
             \<and> tickDelta (20 / 16 * (95 / 100) ^ k, 0) = (20 * (95 / 100) ^ k, 0)
             \<and> offsetRef ((fire ^^ Suc k) s3)
                 = offsetRef (scroll p True True True (20 * (95 / 100) ^ k) 0 ((fire ^^ k) s3)))
         \<and> (20 :: rat) * (95 / 100) ^ 1 = 19
         \<and> (20 :: rat) * (95 / 100) ^ 2 = 1805 / 100
         \<and> map_of (intervals ((fire ^^ 95) s3)) pid = None
         \<and> ti_pid (touchInfoRef ((fire ^^ 95) s3)) = None)
    \<and> (\<forall>s pid speedX speedY.
          map_of (intervals s) pid = Some (speedX, speedY) \<longrightarrow>
            (map_of (intervals (tick p True True True pid s)) pid = None
               \<longleftrightarrow> \<bar>speedX * (95 / 100)\<bar> + \<bar>speedY * (95 / 100)\<bar> < 1 / 100))"
proof -
  let ?es = "[TouchStart 0 100 y0, TouchMove 16 80 y0, TouchEnd 32]"
  let ?pid = "nextPid s0"
  let ?fire = "tick p True True True ?pid"
  from gesture [of p y0 s0] obtain s3 where
    r: "run p ?es s0 = Some s3"
    and dx: "ti_dx (touchInfoRef s3) = 100 - 80"
    and pid: "ti_pid (touchInfoRef s3) = Some ?pid"
    and iv: "map_of (intervals s3) ?pid = Some ((100 - 80) / (32 - 16), 0)"
    by blast
  from iv have iv': "map_of (intervals s3) ?pid = Some (5 / 4, 0)" by simp
  have running: "map_of (intervals ((?fire ^^ k) s3)) ?pid = Some (5 / 4 * (95 / 100) ^ k, 0)"
    if "k < 95" for k
  proof -
    have "\<forall>j. 1 \<le> j \<and> j \<le> k \<longrightarrow> 1 / 100 \<le> (\<bar>5 / 4 :: rat\<bar> + \<bar>0\<bar>) * (95 / 100) ^ j"
      using that decay_upto_94 by simp
    from ticks_running [OF iv' this, of p True True True] show ?thesis by simp
  qed
  have offs: "offsetRef ((?fire ^^ Suc k) s3)
      = offsetRef (scroll p True True True (20 * (95 / 100) ^ k) 0 ((?fire ^^ k) s3))"
    if "k < 95" for k
    using tick_offset [OF running [OF that], of p True True True] by simp
  have last: "map_of (intervals ((?fire ^^ 94) s3)) ?pid = Some (5 / 4 * (95 / 100) ^ 94, 0)"
    using running [of 94] by simp
  have below: "\<bar>5 / 4 * (95 / 100) ^ 94 * (95 / 100) :: rat\<bar> + \<bar>0 * (95 / 100)\<bar> < 1 / 100"
    by (simp add: power_divide)
  have f95: "(?fire ^^ 95) s3 = ?fire ((?fire ^^ 94) s3)"
    by (simp add: numeral_eq_Suc)
  have stop: "map_of (intervals ((?fire ^^ 95) s3)) ?pid = None"
    and stop': "ti_pid (touchInfoRef ((?fire ^^ 95) s3)) = None"
    unfolding f95
    using tick_stops(1) [OF last below, of p True True True]
          tick_stops(2) [OF last below, of p True True True]
    by simp_all
  have steps: "\<forall>k < 95.
               map_of (intervals ((?fire ^^ k) s3)) ?pid = Some (20 / 16 * (95 / 100) ^ k, 0)
             \<and> tickDelta (20 / 16 * (95 / 100) ^ k, 0) = (20 * (95 / 100) ^ k, 0)
             \<and> offsetRef ((?fire ^^ Suc k) s3)
                 = offsetRef (scroll p True True True (20 * (95 / 100) ^ k) 0 ((?fire ^^ k) s3))"
    using running offs by (simp add: tickDelta_def)
  have crit: "\<forall>s pid speedX speedY.
          map_of (intervals s) pid = Some (speedX, speedY) \<longrightarrow>
            (map_of (intervals (tick p True True True pid s)) pid = None
               \<longleftrightarrow> \<bar>speedX * (95 / 100)\<bar> + \<bar>speedY * (95 / 100)\<bar> < 1 / 100)"
    using tick_stops_iff by blast
  have nums: "(20 :: rat) * (95 / 100) ^ 1 = 19" "(20 :: rat) * (95 / 100) ^ 2 = 1805 / 100"
    "tickDelta (20 / 16, 0) = (20, 0)"
    by (simp_all add: tickDelta_def power2_eq_square)
  have s3: "the (run p ?es s0) = s3" using r by simp
  have "run p ?es s0 \<noteq> None" using r by simp
  moreover have "ti_dx (touchInfoRef s3) = 100 - 80
         \<and> ti_pid (touchInfoRef s3) = Some ?pid
         \<and> map_of (intervals s3) ?pid = Some (20 / 16, 0)
         \<and> tickDelta (20 / 16, 0) = (20, 0)
         \<and> (\<forall>k < 95.
               map_of (intervals ((?fire ^^ k) s3)) ?pid = Some (20 / 16 * (95 / 100) ^ k, 0)
             \<and> tickDelta (20 / 16 * (95 / 100) ^ k, 0) = (20 * (95 / 100) ^ k, 0)
             \<and> offsetRef ((?fire ^^ Suc k) s3)
                 = offsetRef (scroll p True True True (20 * (95 / 100) ^ k) 0 ((?fire ^^ k) s3)))
         \<and> (20 :: rat) * (95 / 100) ^ 1 = 19
         \<and> (20 :: rat) * (95 / 100) ^ 2 = 1805 / 100
         \<and> map_of (intervals ((?fire ^^ 95) s3)) ?pid = None
         \<and> ti_pid (touchInfoRef ((?fire ^^ 95) s3)) = None"
    using dx pid iv' steps nums stop stop' by simp
  ultimately show ?thesis
    unfolding Let_def s3 using crit by blast
qed

theorem touch_momentum_decay_witness:
  "run tenRows [TouchStart 0 100 0, TouchMove 16 80 0, TouchEnd 32] (initState tenRows) \<noteq> None
   \<and> nextPid (initState tenRows) = 1
   \<and> map_of (intervals (the (run tenRows [TouchStart 0 100 0, TouchMove 16 80 0, TouchEnd 32]
          (initState tenRows)))) 1 = Some (20 / 16, 0)
   \<and> map_of (intervals ((tick tenRows True True True 1 ^^ 2)
          (the (run tenRows [TouchStart 0 100 0, TouchMove 16 80 0, TouchEnd 32]
            (initState tenRows))))) 1 = Some (20 / 16 * (95 / 100) ^ 2, 0)
   \<and> tickDelta (20 / 16 * (95 / 100) ^ 2, 0) = (1805 / 100, 0)
   \<and> map_of (intervals ((tick tenRows True True True 1 ^^ 95)
          (the (run tenRows [TouchStart 0 100 0, TouchMove 16 80 0, TouchEnd 32]
            (initState tenRows))))) 1 = None"
proof -
  have n: "nextPid (initState tenRows) = 1" by (simp add: initState_def)
  have k: "(2 :: nat) < 95" by simp
  have d: "(20 :: rat) * (95 / 100) ^ 2 = 1805 / 100" by (simp add: power2_eq_square)
  note T = touch_momentum_decay [of tenRows 0 "initState tenRows", unfolded Let_def n]
  from T have r: "run tenRows [TouchStart 0 100 0, TouchMove 16 80 0, TouchEnd 32]
      (initState tenRows) \<noteq> None" by blast
  from T have a: "map_of (intervals (the (run tenRows
      [TouchStart 0 100 0, TouchMove 16 80 0, TouchEnd 32] (initState tenRows)))) 1
        = Some (20 / 16, 0)" by blast
  from T k have b: "map_of (intervals ((tick tenRows True True True 1 ^^ 2)
          (the (run tenRows [TouchStart 0 100 0, TouchMove 16 80 0, TouchEnd 32]
            (initState tenRows))))) 1 = Some (20 / 16 * (95 / 100) ^ 2, 0)
      \<and> tickDelta (20 / 16 * (95 / 100) ^ 2, 0) = (20 * (95 / 100) ^ 2, 0)" by blast
  from T have c: "map_of (intervals ((tick tenRows True True True 1 ^^ 95)
          (the (run tenRows [TouchStart 0 100 0, TouchMove 16 80 0, TouchEnd 32]
            (initState tenRows))))) 1 = None" by blast
  from r n a b c show ?thesis by (simp only: d simp_thms)
qed

text \<open>The decay loop ends for every release speed: some firing clears the interval.\<close>

lemma decay_below:
  fixes S :: rat
  assumes "0 \<le> S"
  shows "\<exists>n. S * (95 / 100) ^ n < 1 / 100"
proof -
  have "0 < 1 / (100 * (real_of_rat S + 1))" using assms by (simp add: add_nonneg_pos)
  from real_arch_pow_inv [OF this, of "95 / 100"] obtain n
    where n: "(95 / 100 :: real) ^ n < 1 / (100 * (real_of_rat S + 1))" by auto
  have pos: "0 < real_of_rat S + 1" using assms by (simp add: add_nonneg_pos)
  have "real_of_rat S * (95 / 100) ^ n \<le> (real_of_rat S + 1) * (95 / 100) ^ n"
    by (simp add: mult_right_mono)
  also have "\<dots> < (real_of_rat S + 1) * (1 / (100 * (real_of_rat S + 1)))"
    using n pos by (simp only: mult_less_cancel_left_pos)
  also have "\<dots> = 1 / 100" using pos by simp
  finally have "real_of_rat (S * (95 / 100) ^ n) < real_of_rat (1 / 100)"
    by (simp add: of_rat_mult of_rat_power of_rat_divide)
  then have "S * (95 / 100) ^ n < 1 / 100" by (simp only: of_rat_less)
  then show ?thesis ..
qed

lemma momentum_terminates:
  assumes iv: "map_of (intervals s) pid = Some (speedX, speedY)"
  shows "\<exists>n. map_of (intervals ((tick p cellsElmnt stickyRowsElmnt stickyColsElmnt pid ^^ n) s)) pid
           = None"
proof -
  let ?S = "\<bar>speedX\<bar> + \<bar>speedY\<bar>"
  let ?P = "\<lambda>n. 1 \<le> n \<and> ?S * (95 / 100) ^ n < 1 / 100"
  let ?t = "tick p cellsElmnt stickyRowsElmnt stickyColsElmnt pid"
  from decay_below [of ?S] obtain m where m: "?S * (95 / 100) ^ m < 1 / 100" by auto
  have "(95 / 100 :: rat) ^ Suc m \<le> (95 / 100) ^ m"
    by (intro power_decreasing) simp_all
  then have "?S * (95 / 100) ^ Suc m \<le> ?S * (95 / 100) ^ m"
    by (intro mult_left_mono) simp_all
  with m have ex: "?P (Suc m)" by simp
  define n where "n = (LEAST n. ?P n)"
  have Pn: "?P n" unfolding n_def using ex by (rule LeastI)
  have least: "\<not> ?P j" if "j < n" for j
    using that not_less_Least unfolding n_def by blast
  from Pn obtain k where k: "n = Suc k" by (cases n) auto
  have "\<forall>j. 1 \<le> j \<and> j \<le> k \<longrightarrow> 1 / 100 \<le> ?S * (95 / 100) ^ j"
  proof (intro allI impI)
    fix j assume j: "1 \<le> j \<and> j \<le> k"
    then have "j < n" using k by simp
    from least [OF this] j show "1 / 100 \<le> ?S * (95 / 100) ^ j" by simp
  qed
  from ticks_running [OF iv this, of p cellsElmnt stickyRowsElmnt stickyColsElmnt]
  have run: "map_of (intervals ((?t ^^ k) s)) pid
       = Some (speedX * (95 / 100) ^ k, speedY * (95 / 100) ^ k)" .
  have "\<bar>speedX * (95 / 100) ^ k * (95 / 100)\<bar> + \<bar>speedY * (95 / 100) ^ k * (95 / 100)\<bar>
      = ?S * (95 / 100) ^ Suc k"
    by (simp add: abs_mult algebra_simps)
  with Pn k have "\<bar>speedX * (95 / 100) ^ k * (95 / 100)\<bar>
      + \<bar>speedY * (95 / 100) ^ k * (95 / 100)\<bar> < 1 / 100" by simp
  from tick_stops(1) [OF run this, of p cellsElmnt stickyRowsElmnt stickyColsElmnt]
  have "map_of (intervals ((?t ^^ Suc k) s)) pid = None" by simp
  then show ?thesis ..
qed

end
